theory Spec2Isabelle
  imports Complex_Main "HOL-Library.Multiset"
begin

section \<open>Data model\<close>

text \<open>
  The rows of the two tables of \<^verbatim>\<open>db_models.py\<close> that the chapter sequencing code reads
  or writes. A novel row carries its primary key, its owner and its slug; the optional
  \<^verbatim>\<open>sort_order_override\<close> is the key that \<^verbatim>\<open>delete_chapter\<close> looks up in the novel's
  dictionary (\<open>None\<close>: the key is absent or holds \<^verbatim>\<open>None\<close>). A chapter row carries
  its primary key, its novel, its slug (unique within the novel), the free-text chapter number,
  the source URL (both nullable) and the integer position. Titles, contents and images are
  stored by the code but never read back by it: the rows leave them out, and the request
  data below carries the ones that the table's column constraints check on insertion.
\<close>

record novel =
  n_id :: nat
  n_user_id :: string
  n_slug :: string
  n_sort_order_override :: "string option"

record chapter_row =
  c_id :: nat
  c_novel_id :: nat
  c_slug :: string
  chapter_number :: "string option"
  source_url :: "string option"
  position :: int

text \<open>
  A key of the request's JSON object that the code reads with a default: absent, present
  with \<^verbatim>\<open>null\<close>, or present with a value.
\<close>

datatype 'a json_field = Key_missing | Key_null | Key_value 'a

text \<open>
  The \<^verbatim>\<open>chapter_data\<close> dictionary of an import request. The slug is \<open>None\<close> when the
  key is missing; the keys read with a plain \<^verbatim>\<open>.get\<close> are \<open>None\<close> when the key is
  missing or holds \<^verbatim>\<open>None\<close>; title and content are read with the default
  \<^verbatim>\<open>''\<close>, which only a missing key gets.
\<close>

record chapter_data =
  d_slug :: "string option"
  d_source_url :: "string option"
  d_position :: "int option"
  d_chapter_number :: "string option"
  d_title :: "string json_field"
  d_content :: "string json_field"
  d_original_title :: "string option"
  d_translated_title :: "string option"

text \<open>
  The database: both tables in physical row order, the sequence behind the chapters' serial
  primary key, and the novel rows held under \<^verbatim>\<open>SELECT ... FOR UPDATE\<close> by the open
  transaction. The position column is a 32-bit integer; the model keeps positions as
  unbounded integers and lets the statements that write them fail where the column would.
\<close>

record db =
  novels :: "novel list"
  chapters :: "chapter_row list"
  next_chapter_id :: nat
  row_locks :: "nat list"

datatype error =
    ValueError string
  | KeyError string
  | IntegrityError
  | DataError
  | IndexError

text \<open>
  The dictionary returned by \<^verbatim>\<open>add_chapter_atomic\<close>; \<open>already_exists\<close> is \<open>None\<close>
  when the key is absent, as it is after an insertion.
\<close>

record add_result =
  success :: bool
  message :: string
  already_exists :: "bool option"
  r_novel_id :: string
  chapter_index :: int
  chapter_id :: nat

text \<open>
  A Python float as far as comparison needs it: a finite value is the real number it denotes.
\<close>

datatype pyfloat = Finite real | PosInf | NegInf | NaN

fun float_lt :: "pyfloat \<Rightarrow> pyfloat \<Rightarrow> bool" where
  "float_lt NaN _ = False"
| "float_lt _ NaN = False"
| "float_lt (Finite x) (Finite y) = (x < y)"
| "float_lt (Finite _) PosInf = True"
| "float_lt (Finite _) NegInf = False"
| "float_lt PosInf _ = False"
| "float_lt NegInf NegInf = False"
| "float_lt NegInf _ = True"

section \<open>Ordering keys\<close>

text \<open>
  \<^verbatim>\<open>re.search(r'/viewer/(\d+)', source_url)\<close>: the leftmost place where the text
  \<^verbatim>\<open>/viewer/\<close> is followed by a digit, with the longest run of digits taken there.
  Strings are byte strings here, so \<^verbatim>\<open>\d\<close> is an ASCII digit.
\<close>

definition is_digit :: "char \<Rightarrow> bool" where
  "is_digit c = (48 \<le> (of_char c :: nat) \<and> (of_char c :: nat) \<le> 57)"

definition int_of_digits :: "string \<Rightarrow> int" where
  "int_of_digits ds = foldl (\<lambda>acc c. 10 * acc + (int (of_char c) - 48)) 0 ds"

definition match_viewer :: "string \<Rightarrow> int option" where
  "match_viewer s =
     (let ds = takeWhile is_digit (drop 8 s)
      in if take 8 s = ''/viewer/'' \<and> ds \<noteq> [] then Some (int_of_digits ds) else None)"

fun search_viewer :: "string \<Rightarrow> int option" where
  "search_viewer [] = None"
| "search_viewer (c # cs) =
     (case match_viewer (c # cs) of
        Some k \<Rightarrow> Some k
      | None \<Rightarrow> search_viewer cs)"

definition extract_episode_id_from_url :: "string option \<Rightarrow> int option" where
  "extract_episode_id_from_url url =
     (case url of
        None \<Rightarrow> None
      | Some s \<Rightarrow> if s = [] then None else search_viewer s)"

text \<open>
  \<^verbatim>\<open>parse_chapter_number\<close>. Python's \<^verbatim>\<open>float(str)\<close> is a parameter: \<open>None\<close> where it
  raises \<^verbatim>\<open>ValueError\<close>.
\<close>

definition parse_chapter_number :: "(string \<Rightarrow> pyfloat option) \<Rightarrow> string option \<Rightarrow> pyfloat" where
  "parse_chapter_number float_of num_str =
     (case num_str of
        None \<Rightarrow> Finite 999999
      | Some s \<Rightarrow>
          if s = [] then Finite 999999
          else if s = ''BONUS'' then Finite 999999
          else (case float_of s of Some x \<Rightarrow> x | None \<Rightarrow> Finite 999999))"

section \<open>Queries and row updates\<close>

definition query_novel :: "db \<Rightarrow> string \<Rightarrow> string \<Rightarrow> novel option" where
  "query_novel s user_id slug = find (\<lambda>n. n_user_id n = user_id \<and> n_slug n = slug) (novels s)"

text \<open>The same query \<^verbatim>\<open>with_for_update()\<close>: the row found, if any, is locked.\<close>

definition query_novel_for_update :: "db \<Rightarrow> string \<Rightarrow> string \<Rightarrow> novel option \<times> db" where
  "query_novel_for_update s user_id slug =
     (case query_novel s user_id slug of
        None \<Rightarrow> (None, s)
      | Some n \<Rightarrow> (Some n, s\<lparr>row_locks := n_id n # row_locks s\<rparr>))"

definition novel_chapters :: "db \<Rightarrow> nat \<Rightarrow> chapter_row list" where
  "novel_chapters s nid = filter (\<lambda>c. c_novel_id c = nid) (chapters s)"

text \<open>\<^verbatim>\<open>filter(novel_id == nid).order_by(Chapter.position).all()\<close>\<close>

definition chapters_by_position :: "db \<Rightarrow> nat \<Rightarrow> chapter_row list" where
  "chapters_by_position s nid = sort_key position (novel_chapters s nid)"

text \<open>
  An assignment \<^verbatim>\<open>ch.position = f(ch.position)\<close> to the mapped object of the row with
  primary key \<open>cid\<close>.
\<close>

definition update_position :: "(int \<Rightarrow> int) \<Rightarrow> nat \<Rightarrow> db \<Rightarrow> db" where
  "update_position f cid s =
     s\<lparr>chapters := map (\<lambda>c. if c_id c = cid then c\<lparr>position := f (position c)\<rparr> else c) (chapters s)\<rparr>"

text \<open>
  \<^verbatim>\<open>db_session_scope\<close>: the body runs in a transaction; when it raises, the transaction is
  rolled back and the error goes on to the caller, otherwise it is committed. Either way the
  transaction's row locks end with it. A rollback restores the tables but not the sequence:
  a primary key drawn by a statement that failed is not given back.
\<close>

definition db_session_scope :: "(db \<Rightarrow> (error + 'a) \<times> db) \<Rightarrow> db \<Rightarrow> (error + 'a) \<times> db" where
  "db_session_scope body s =
     (case body s of
        (Inl e, s') \<Rightarrow> (Inl e, s\<lparr>next_chapter_id := next_chapter_id s'\<rparr>)
      | (Inr r, s') \<Rightarrow> (Inr r, s'\<lparr>row_locks := row_locks s\<rparr>))"

text \<open>
  What the 32-bit \<^verbatim>\<open>INTEGER\<close> column holds, and \<^verbatim>\<open>session.flush()\<close> after
  assignments to the objects \<open>cids\<close>: their rows are updated, and the update is refused when
  one of the new positions does not fit the column.
\<close>

definition int32_ok :: "int \<Rightarrow> bool" where
  "int32_ok p = (- 2147483648 \<le> p \<and> p \<le> 2147483647)"

definition flush_positions :: "nat list \<Rightarrow> db \<Rightarrow> error + db" where
  "flush_positions cids s =
     (if list_all (\<lambda>c. c_id c \<in> set cids \<longrightarrow> int32_ok (position c)) (chapters s) then Inr s
      else Inl DataError)"

section \<open>Position sequencer and atomic insertion\<close>

text \<open>The two loops over \<^verbatim>\<open>enumerate(existing_chapters)\<close>, with \<open>insert_pos\<close> as set before.\<close>

fun episode_loop :: "int \<Rightarrow> nat \<Rightarrow> chapter_row list \<Rightarrow> nat \<Rightarrow> nat" where
  "episode_loop new_episode_id idx [] insert_pos = insert_pos"
| "episode_loop new_episode_id idx (existing_ch # rest) insert_pos =
     (case extract_episode_id_from_url (source_url existing_ch) of
        None \<Rightarrow> episode_loop new_episode_id (Suc idx) rest insert_pos
      | Some existing_episode_id \<Rightarrow>
          if new_episode_id < existing_episode_id then idx
          else episode_loop new_episode_id (Suc idx) rest insert_pos)"

fun number_loop :: "(string \<Rightarrow> pyfloat option) \<Rightarrow> pyfloat \<Rightarrow> nat \<Rightarrow> chapter_row list \<Rightarrow> nat \<Rightarrow> nat" where
  "number_loop float_of new_chapter_num idx [] insert_pos = insert_pos"
| "number_loop float_of new_chapter_num idx (existing_ch # rest) insert_pos =
     (if float_lt new_chapter_num (parse_chapter_number float_of (chapter_number existing_ch)) then idx
      else number_loop float_of new_chapter_num (Suc idx) rest insert_pos)"

definition compute_insert_pos :: "(string \<Rightarrow> pyfloat option) \<Rightarrow> chapter_data \<Rightarrow> chapter_row list \<Rightarrow> nat" where
  "compute_insert_pos float_of cd existing_chapters =
     (case extract_episode_id_from_url (d_source_url cd) of
        Some new_episode_id \<Rightarrow>
          episode_loop new_episode_id 0 existing_chapters (length existing_chapters)
      | None \<Rightarrow>
          number_loop float_of (parse_chapter_number float_of (d_chapter_number cd)) 0
            existing_chapters (length existing_chapters))"

text \<open>
  The rows to shift, \<^verbatim>\<open>position >= insert_pos\<close> in descending position order, as the list
  of their primary keys; then the two passes over that list.
\<close>

definition chapters_to_shift :: "db \<Rightarrow> nat \<Rightarrow> nat \<Rightarrow> nat list" where
  "chapters_to_shift s nid insert_pos =
     map c_id (rev (sort_key position
       (filter (\<lambda>c. c_novel_id c = nid \<and> position c \<ge> int insert_pos) (chapters s))))"

definition to_temp :: "int \<Rightarrow> int" where
  "to_temp p = - (p + 1000)"

definition from_temp :: "int \<Rightarrow> int" where
  "from_temp p = (\<bar>p\<bar> - 1000) + 1"

definition first_pass :: "nat list \<Rightarrow> db \<Rightarrow> db" where
  "first_pass cids s = fold (update_position to_temp) cids s"

definition second_pass :: "nat list \<Rightarrow> db \<Rightarrow> db" where
  "second_pass cids s = fold (update_position from_temp) cids s"

definition shift_chapters :: "nat \<Rightarrow> nat \<Rightarrow> db \<Rightarrow> error + db" where
  "shift_chapters nid insert_pos s =
     (let cids = chapters_to_shift s nid insert_pos
      in case flush_positions cids (first_pass cids s) of
           Inl e \<Rightarrow> Inl e
         | Inr s1 \<Rightarrow> flush_positions cids (second_pass cids s1))"

definition find_by_source_url :: "db \<Rightarrow> nat \<Rightarrow> string \<Rightarrow> chapter_row option" where
  "find_by_source_url s nid url =
     find (\<lambda>c. c_novel_id c = nid \<and> source_url c = Some url) (chapters s)"

text \<open>
  The duplicate check: skipped when the source URL is \<^verbatim>\<open>None\<close> or empty, otherwise
  the first chapter of the novel with that source URL.
\<close>

definition duplicate_check :: "db \<Rightarrow> nat \<Rightarrow> string option \<Rightarrow> chapter_row option" where
  "duplicate_check s nid url_opt =
     (case url_opt of
        None \<Rightarrow> None
      | Some url \<Rightarrow> if url = [] then None else find_by_source_url s nid url)"

text \<open>
  \<^verbatim>\<open>chapter_data.get(key, default)\<close> and the length limit of a \<^verbatim>\<open>String(n)\<close> column.
\<close>

definition get_or :: "'a json_field \<Rightarrow> 'a \<Rightarrow> 'a option" where
  "get_or f dflt = (case f of Key_missing \<Rightarrow> Some dflt | Key_null \<Rightarrow> None | Key_value v \<Rightarrow> Some v)"

definition too_long :: "nat \<Rightarrow> string option \<Rightarrow> bool" where
  "too_long n v = (case v of None \<Rightarrow> False | Some t \<Rightarrow> n < length t)"

text \<open>
  \<^verbatim>\<open>session.add(new_chapter); session.flush()\<close>, the \<^verbatim>\<open>INSERT\<close> of the new row. A
  value that its column cannot hold (a position outside 32 bits, a slug over 255 characters,
  a title over 500, a chapter number over 50) makes the statement fail before a primary key
  is drawn. Otherwise the key is drawn, and the row is refused when title or content is
  \<^verbatim>\<open>NULL\<close> or when the unique index on (novel, slug) already holds the slug; otherwise
  it is stored.
\<close>

definition add_and_flush ::
  "db \<Rightarrow> nat \<Rightarrow> string \<Rightarrow> chapter_data \<Rightarrow> int \<Rightarrow> (error + chapter_row) \<times> db" where
  "add_and_flush s nid slug cd pos =
     (let title = get_or (d_title cd) [];
          content = get_or (d_content cd) []
      in if \<not> int32_ok pos \<or> 255 < length slug \<or> too_long 500 title
              \<or> too_long 500 (d_original_title cd) \<or> too_long 500 (d_translated_title cd)
              \<or> too_long 50 (d_chapter_number cd)
         then (Inl DataError, s)
         else
           (let s1 = s\<lparr>next_chapter_id := Suc (next_chapter_id s)\<rparr>
            in if title = None \<or> content = None then (Inl IntegrityError, s1)
               else if \<exists>c \<in> set (chapters s). c_novel_id c = nid \<and> c_slug c = slug
               then (Inl IntegrityError, s1)
               else
                 (let new_chapter = \<lparr>c_id = next_chapter_id s, c_novel_id = nid, c_slug = slug,
                                      chapter_number = d_chapter_number cd,
                                      source_url = d_source_url cd, position = pos\<rparr>
                  in (Inr new_chapter, s1\<lparr>chapters := chapters s @ [new_chapter]\<rparr>))))"

text \<open>The two dictionaries \<^verbatim>\<open>add_chapter_atomic\<close> returns.\<close>

definition inserted_result :: "novel \<Rightarrow> chapter_row \<Rightarrow> add_result" where
  "inserted_result n c = \<lparr>success = True, message = ''Chapter imported successfully'',
      already_exists = None, r_novel_id = n_slug n, chapter_index = position c, chapter_id = c_id c\<rparr>"

definition skipped_result :: "novel \<Rightarrow> chapter_row \<Rightarrow> add_result" where
  "skipped_result n c = \<lparr>success = True, message = ''Chapter already exists - skipped'',
      already_exists = Some True, r_novel_id = n_slug n, chapter_index = position c, chapter_id = c_id c\<rparr>"

text \<open>The body of \<^verbatim>\<open>add_chapter_atomic\<close> inside the session scope.\<close>

definition assign_position ::
  "(string \<Rightarrow> pyfloat option) \<Rightarrow> nat \<Rightarrow> chapter_data \<Rightarrow> db \<Rightarrow> error + int \<times> db" where
  "assign_position float_of nid cd s =
     (case d_position cd of
        Some p \<Rightarrow> Inr (p, s)
      | None \<Rightarrow>
          (let existing_chapters = chapters_by_position s nid;
               insert_pos = compute_insert_pos float_of cd existing_chapters
           in if insert_pos < length existing_chapters
              then (case shift_chapters nid insert_pos s of
                      Inl e \<Rightarrow> Inl e
                    | Inr s1 \<Rightarrow> Inr (int insert_pos, s1))
              else Inr (int insert_pos, s)))"

definition add_chapter_body ::
  "(string \<Rightarrow> pyfloat option) \<Rightarrow> string \<Rightarrow> string \<Rightarrow> chapter_data \<Rightarrow> db \<Rightarrow> (error + add_result) \<times> db" where
  "add_chapter_body float_of user_id novel_slug cd s0 =
     (case query_novel_for_update s0 user_id novel_slug of
        (None, s) \<Rightarrow> (Inl (ValueError novel_slug), s)
      | (Some novel, s) \<Rightarrow>
          (case duplicate_check s (n_id novel) (d_source_url cd) of
             Some existing_chapter \<Rightarrow> (Inr (skipped_result novel existing_chapter), s)
           | None \<Rightarrow>
               (case assign_position float_of (n_id novel) cd s of
                  Inl e \<Rightarrow> (Inl e, s)
                | Inr (pos, s1) \<Rightarrow>
                    (case d_slug cd of
                       None \<Rightarrow> (Inl (KeyError ''slug''), s1)
                     | Some slug \<Rightarrow>
                         (case add_and_flush s1 (n_id novel) slug cd pos of
                            (Inl e, s2) \<Rightarrow> (Inl e, s2)
                          | (Inr new_chapter, s2) \<Rightarrow>
                              (Inr (inserted_result novel new_chapter), s2))))))"

definition add_chapter_atomic ::
  "(string \<Rightarrow> pyfloat option) \<Rightarrow> string \<Rightarrow> string \<Rightarrow> chapter_data \<Rightarrow> db \<Rightarrow> (error + add_result) \<times> db" where
  "add_chapter_atomic float_of user_id novel_slug cd s =
     db_session_scope (add_chapter_body float_of user_id novel_slug cd) s"

text \<open>
  Every state the session's objects pass through during the two passes, one per assignment,
  in program order; the second pass runs only when the flush after the first is accepted.
\<close>

fun assign_trace :: "(int \<Rightarrow> int) \<Rightarrow> nat list \<Rightarrow> db \<Rightarrow> db list" where
  "assign_trace f [] s = []"
| "assign_trace f (cid # cids) s =
     update_position f cid s # assign_trace f cids (update_position f cid s)"

definition shift_trace :: "nat \<Rightarrow> nat \<Rightarrow> db \<Rightarrow> db list" where
  "shift_trace nid insert_pos s =
     (let cids = chapters_to_shift s nid insert_pos
      in assign_trace to_temp cids s @
         (case flush_positions cids (first_pass cids s) of
            Inl e \<Rightarrow> []
          | Inr s1 \<Rightarrow> assign_trace from_temp cids s1))"

text \<open>
  The single-pass shift that the two passes stand for: every chapter of the novel at or after
  the insertion index moves from \<open>p\<close> to \<open>p + 1\<close>.
\<close>

definition direct_shift :: "nat \<Rightarrow> nat \<Rightarrow> db \<Rightarrow> db" where
  "direct_shift nid insert_pos s =
     s\<lparr>chapters :=
         map (\<lambda>c. if c_novel_id c = nid \<and> position c \<ge> int insert_pos
                   then c\<lparr>position := position c + 1\<rparr> else c) (chapters s)\<rparr>"

section \<open>Sort-order view\<close>

text \<open>
  \<^verbatim>\<open>sort_chapters_by_number\<close>, for dictionaries and mapped objects alike: \<open>position_of\<close>
  reads an item's position, \<open>None\<close> where the dictionary has no such key (the object no such
  attribute), and the sort key is then 999999. The list may hold \<^verbatim>\<open>None\<close> entries, which
  are dropped. Python's \<^verbatim>\<open>sorted\<close> is stable, and with \<^verbatim>\<open>reverse=True\<close> it still
  keeps items with equal keys in their original order.
\<close>

definition sort_key_of :: "('a \<Rightarrow> int option) \<Rightarrow> 'a \<Rightarrow> int" where
  "sort_key_of position_of ch = (case position_of ch of Some p \<Rightarrow> p | None \<Rightarrow> 999999)"

definition py_sorted :: "('a \<Rightarrow> int) \<Rightarrow> bool \<Rightarrow> 'a list \<Rightarrow> 'a list" where
  "py_sorted key reverse xs = (if reverse then rev (sort_key key (rev xs)) else sort_key key xs)"

definition sort_chapters_by_number :: "('a \<Rightarrow> int option) \<Rightarrow> 'a option list \<Rightarrow> string \<Rightarrow> 'a list" where
  "sort_chapters_by_number position_of chapter_list order =
     (if chapter_list = [] then []
      else
        (let valid_chapters = List.map_filter (\<lambda>ch. ch) chapter_list
         in py_sorted (sort_key_of position_of) (order = ''desc'') valid_chapters))"

section \<open>Deletion and renormalization\<close>

definition get_novel_with_chapters_db :: "db \<Rightarrow> string \<Rightarrow> string \<Rightarrow> (novel \<times> chapter_row list) option" where
  "get_novel_with_chapters_db s user_id slug =
     (case query_novel s user_id slug of
        None \<Rightarrow> None
      | Some n \<Rightarrow> Some (n, chapters_by_position s (n_id n)))"

text \<open>
  \<^verbatim>\<open>sorted_chapters[chapter_index]\<close>: an index from \<open>-len\<close> up to \<open>-1\<close> addresses the
  list from its end, and an index outside \<open>-len, ..., len - 1\<close> raises.
\<close>

definition py_index :: "'a list \<Rightarrow> int \<Rightarrow> error + 'a" where
  "py_index xs i =
     (if 0 \<le> i \<and> i < int (length xs) then Inr (xs ! nat i)
      else if i < 0 \<and> - int (length xs) \<le> i then Inr (xs ! nat (int (length xs) + i))
      else Inl IndexError)"

text \<open>
  \<^verbatim>\<open>for idx, ch in enumerate(remaining_chapters): if ch.position != idx: ch.position = idx\<close>
\<close>

fun renormalize :: "nat \<Rightarrow> nat list \<Rightarrow> db \<Rightarrow> db" where
  "renormalize idx [] s = s"
| "renormalize idx (cid # cids) s =
     renormalize (Suc idx) cids
       (update_position (\<lambda>p. if p \<noteq> int idx then int idx else p) cid s)"

text \<open>
  The transaction of \<^verbatim>\<open>delete_chapter\<close>. The token-usage table and the image files are
  outside the model.
\<close>

definition delete_chapter_body :: "string \<Rightarrow> string \<Rightarrow> nat \<Rightarrow> db \<Rightarrow> (error + bool) \<times> db" where
  "delete_chapter_body user_id novel_slug cid s0 =
     (case query_novel_for_update s0 user_id novel_slug of
        (None, s) \<Rightarrow> (Inr False, s)
      | (Some novel_obj, s) \<Rightarrow>
          (case find (\<lambda>c. c_id c = cid) (chapters s) of
             None \<Rightarrow> (Inr False, s)
           | Some chapter_to_delete \<Rightarrow>
               (let s1 = s\<lparr>chapters := remove1 chapter_to_delete (chapters s)\<rparr>;
                    remaining_chapters = chapters_by_position s1 (n_id novel_obj)
                in (Inr True, renormalize 0 (map c_id remaining_chapters) s1))))"

text \<open>
  \<open>default_sort_order\<close> is what the user's settings give for the key of that name.
\<close>

definition delete_chapter :: "string \<Rightarrow> string \<Rightarrow> string \<Rightarrow> int \<Rightarrow> db \<Rightarrow> (error + bool) \<times> db" where
  "delete_chapter default_sort_order user_id novel_slug chapter_index_arg s =
     (case get_novel_with_chapters_db s user_id novel_slug of
        None \<Rightarrow> (Inr False, s)
      | Some (novel, chs) \<Rightarrow>
          if chs = [] then (Inr False, s)
          else
            (let order = (case n_sort_order_override novel of
                            Some ov \<Rightarrow> ov
                          | None \<Rightarrow> default_sort_order);
                 sorted_chapters =
                   sort_chapters_by_number (\<lambda>c. Some (position c)) (map Some chs) order
             in if chapter_index_arg \<ge> int (length sorted_chapters) then (Inr False, s)
                else
                  (case py_index sorted_chapters chapter_index_arg of
                     Inl e \<Rightarrow> (Inl e, s)
                   | Inr ch \<Rightarrow>
                       db_session_scope (delete_chapter_body user_id novel_slug (c_id ch)) s)))"

section \<open>Sequences of operations\<close>

datatype operation =
    Insert string string chapter_data
  | Delete string string string int

fun apply_operation :: "(string \<Rightarrow> pyfloat option) \<Rightarrow> operation \<Rightarrow> db \<Rightarrow> db" where
  "apply_operation float_of (Insert user_id novel_slug cd) s =
     snd (add_chapter_atomic float_of user_id novel_slug cd s)"
| "apply_operation float_of (Delete default_sort_order user_id novel_slug i) s =
     snd (delete_chapter default_sort_order user_id novel_slug i s)"

definition run_operations :: "(string \<Rightarrow> pyfloat option) \<Rightarrow> operation list \<Rightarrow> db \<Rightarrow> db" where
  "run_operations float_of ops s = fold (apply_operation float_of) ops s"

text \<open>
  An insert whose explicit position, if it has one, is the number of chapters the novel
  holds at that moment (the append position); inserts without an explicit position and
  deletes are always of this kind.
\<close>

definition position_admissible :: "operation \<Rightarrow> db \<Rightarrow> bool" where
  "position_admissible opn s =
     (case opn of
        Insert user_id novel_slug cd \<Rightarrow>
          (case d_position cd of
             None \<Rightarrow> True
           | Some p \<Rightarrow>
               (case query_novel s user_id novel_slug of
                  None \<Rightarrow> True
                | Some n \<Rightarrow> p = int (length (novel_chapters s (n_id n)))))
      | Delete default_sort_order user_id novel_slug i \<Rightarrow> True)"

fun admissible :: "(string \<Rightarrow> pyfloat option) \<Rightarrow> operation list \<Rightarrow> db \<Rightarrow> bool" where
  "admissible float_of [] s = True"
| "admissible float_of (opn # ops) s =
     (position_admissible opn s \<and> admissible float_of ops (apply_operation float_of opn s))"

text \<open>
  The primary key of the chapters table: no two rows share an id, and the sequence is ahead
  of every id in use.
\<close>

definition primary_key_ok :: "db \<Rightarrow> bool" where
  "primary_key_ok s =
     (distinct (map c_id (chapters s)) \<and> (\<forall>c \<in> set (chapters s). c_id c < next_chapter_id s))"

text \<open>The positions of a novel's \<open>N\<close> chapters are exactly \<open>0, ..., N - 1\<close>, each once.\<close>

definition dense_positions :: "db \<Rightarrow> nat \<Rightarrow> bool" where
  "dense_positions s nid =
     (distinct (map position (novel_chapters s nid))
      \<and> set (map position (novel_chapters s nid)) = {0 ..< int (length (novel_chapters s nid))})"

section \<open>Specification-side definitions and examples\<close>

text \<open>
  Every row's position replaced at once by a function of the row; the passes and the passes'
  intermediate states are all of this form.
\<close>

definition reposition :: "(chapter_row \<Rightarrow> int) \<Rightarrow> db \<Rightarrow> db" where
  "reposition h s = s\<lparr>chapters := map (\<lambda>c. c\<lparr>position := h c\<rparr>) (chapters s)\<rparr>"

text \<open>The state after both passes, flushes apart.\<close>

definition both_passes :: "nat \<Rightarrow> nat \<Rightarrow> db \<Rightarrow> db" where
  "both_passes nid insert_pos s =
     (let cids = chapters_to_shift s nid insert_pos
      in second_pass cids (first_pass cids s))"

text \<open>
  The largest position whose temporary value \<open>-(p + 1000)\<close> the 32-bit column still holds.
\<close>

definition max_shiftable :: int where
  "max_shiftable = 2147482648"

text \<open>A novel with a single chapter, stored at a position above that bound.\<close>

definition example_db_far :: db where
  "example_db_far =
     \<lparr>novels = [\<lparr>n_id = 1, n_user_id = ''u'', n_slug = ''n'', n_sort_order_override = None\<rparr>],
      chapters =
        [\<lparr>c_id = 1, c_novel_id = 1, c_slug = ''a'', chapter_number = Some ''9'',
           source_url = Some ''https://novelpia.com/viewer/900'', position = 2147483000\<rparr>],
      next_chapter_id = 2, row_locks = []\<rparr>"

text \<open>
  A novel with three chapters at positions 0, 1, 2 whose source URLs carry the episode ids
  100, 300 and 500.
\<close>

definition example_db :: db where
  "example_db =
     \<lparr>novels = [\<lparr>n_id = 1, n_user_id = ''u'', n_slug = ''n'', n_sort_order_override = None\<rparr>],
      chapters =
        [\<lparr>c_id = 1, c_novel_id = 1, c_slug = ''a'', chapter_number = Some ''1'',
           source_url = Some ''https://novelpia.com/viewer/100'', position = 0\<rparr>,
         \<lparr>c_id = 2, c_novel_id = 1, c_slug = ''b'', chapter_number = Some ''2'',
           source_url = Some ''https://novelpia.com/viewer/300'', position = 1\<rparr>,
         \<lparr>c_id = 3, c_novel_id = 1, c_slug = ''c'', chapter_number = Some ''3'',
           source_url = Some ''https://novelpia.com/viewer/500'', position = 2\<rparr>],
      next_chapter_id = 4, row_locks = []\<rparr>"

text \<open>
  The sequencer's rule in the specification's words: the index of the first item that
  satisfies \<open>P\<close>, and the length of the list when no item does.
\<close>

fun first_index_where :: "('a \<Rightarrow> bool) \<Rightarrow> 'a list \<Rightarrow> nat" where
  "first_index_where P [] = 0"
| "first_index_where P (x # xs) = (if P x then 0 else Suc (first_index_where P xs))"

text \<open>
  An existing chapter blocks a new ordering key when its own key is defined and strictly
  greater; it blocks a new chapter number when its own parsed number is strictly greater.
\<close>

definition key_greater :: "int \<Rightarrow> chapter_row \<Rightarrow> bool" where
  "key_greater new_key ch =
     (case extract_episode_id_from_url (source_url ch) of
        None \<Rightarrow> False
      | Some k \<Rightarrow> new_key < k)"

definition number_greater :: "(string \<Rightarrow> pyfloat option) \<Rightarrow> pyfloat \<Rightarrow> chapter_row \<Rightarrow> bool" where
  "number_greater float_of new_num ch =
     float_lt new_num (parse_chapter_number float_of (chapter_number ch))"

text \<open>A \<^verbatim>\<open>float\<close> that reads four chapter numbers and rejects everything else.\<close>

definition example_float_of :: "string \<Rightarrow> pyfloat option" where
  "example_float_of t =
     (if t = ''1'' then Some (Finite 1)
      else if t = ''2'' then Some (Finite 2)
      else if t = ''3'' then Some (Finite 3)
      else if t = ''2.5'' then Some (Finite (5 / 2))
      else None)"

text \<open>
  The example after the import of a chapter with episode id 400, and a novel whose only
  chapter has no source URL.
\<close>

definition example_db_400 :: db where
  "example_db_400 =
     \<lparr>novels = [\<lparr>n_id = 1, n_user_id = ''u'', n_slug = ''n'', n_sort_order_override = None\<rparr>],
      chapters =
        [\<lparr>c_id = 1, c_novel_id = 1, c_slug = ''a'', chapter_number = Some ''1'',
           source_url = Some ''https://novelpia.com/viewer/100'', position = 0\<rparr>,
         \<lparr>c_id = 2, c_novel_id = 1, c_slug = ''b'', chapter_number = Some ''2'',
           source_url = Some ''https://novelpia.com/viewer/300'', position = 1\<rparr>,
         \<lparr>c_id = 3, c_novel_id = 1, c_slug = ''c'', chapter_number = Some ''3'',
           source_url = Some ''https://novelpia.com/viewer/500'', position = 3\<rparr>,
         \<lparr>c_id = 4, c_novel_id = 1, c_slug = ''d'', chapter_number = Some ''2.5'',
           source_url = Some ''https://novelpia.com/viewer/400'', position = 2\<rparr>],
      next_chapter_id = 5, row_locks = []\<rparr>"

definition example_db_sourceless :: db where
  "example_db_sourceless =
     \<lparr>novels = [\<lparr>n_id = 1, n_user_id = ''u'', n_slug = ''n'', n_sort_order_override = None\<rparr>],
      chapters =
        [\<lparr>c_id = 1, c_novel_id = 1, c_slug = ''a'', chapter_number = Some ''1'',
           source_url = None, position = 0\<rparr>],
      next_chapter_id = 2, row_locks = []\<rparr>"

text \<open>A novel without chapters.\<close>

definition example_db_empty :: db where
  "example_db_empty =
     \<lparr>novels = [\<lparr>n_id = 1, n_user_id = ''u'', n_slug = ''n'', n_sort_order_override = None\<rparr>],
      chapters = [], next_chapter_id = 1, row_locks = []\<rparr>"

text \<open>
  Two imports in reverse chronological order, an import with the explicit position 2 into the
  novel that then holds two chapters, and the deletion of the first displayed chapter.
\<close>

definition example_operations :: "operation list" where
  "example_operations =
     [Insert ''u'' ''n'' \<lparr>d_slug = Some ''a'', d_source_url = Some ''/viewer/300'',
                          d_position = None, d_chapter_number = Some ''2'',
       d_title = Key_missing, d_content = Key_missing, d_original_title = None,
       d_translated_title = None\<rparr>,
      Insert ''u'' ''n'' \<lparr>d_slug = Some ''b'', d_source_url = Some ''/viewer/100'',
                          d_position = None, d_chapter_number = Some ''1'',
       d_title = Key_missing, d_content = Key_missing, d_original_title = None,
       d_translated_title = None\<rparr>,
      Insert ''u'' ''n'' \<lparr>d_slug = Some ''c'', d_source_url = None,
                          d_position = Some 2, d_chapter_number = Some ''BONUS'',
       d_title = Key_missing, d_content = Key_missing, d_original_title = None,
       d_translated_title = None\<rparr>,
      Delete ''asc'' ''u'' ''n'' 0]"

text \<open>Two chapters of one novel stored at the same position.\<close>

definition example_tied :: "chapter_row list" where
  "example_tied =
     [\<lparr>c_id = 1, c_novel_id = 1, c_slug = ''a'', chapter_number = Some ''1'',
        source_url = None, position = 0\<rparr>,
      \<lparr>c_id = 2, c_novel_id = 1, c_slug = ''b'', chapter_number = Some ''2'',
        source_url = None, position = 0\<rparr>]"

text \<open>
  Renormalization in the specification's words: the items keep their order and the item at
  index \<open>j\<close> gets position \<open>j\<close>.
\<close>

definition renumbered :: "chapter_row list \<Rightarrow> chapter_row list" where
  "renumbered cs = map (\<lambda>(j, c). c\<lparr>position := int j\<rparr>) (enumerate 0 cs)"

text \<open>The position that \<^verbatim>\<open>renormalize\<close> gives the row with primary key \<open>cid\<close>, if any.\<close>

definition new_position :: "nat \<Rightarrow> nat list \<Rightarrow> nat \<Rightarrow> int option" where
  "new_position idx cids cid = map_of (zip cids (map int [idx ..< idx + length cids])) cid"

text \<open>What the deleting transaction does to the tables once the row to delete is found.\<close>

definition after_delete :: "db \<Rightarrow> nat \<Rightarrow> chapter_row \<Rightarrow> db" where
  "after_delete s nid ch =
     (let s1 = s\<lparr>chapters := remove1 ch (chapters s)\<rparr>
      in renormalize 0 (map c_id (chapters_by_position s1 nid)) s1)"

section \<open>Auxiliary lemmas: the two-pass shift\<close>

lemma fold_update_position:
  "distinct cids \<Longrightarrow>
   fold (update_position f) cids s =
     reposition (\<lambda>c. if c_id c \<in> set cids then f (position c) else position c) s"
proof (induction cids arbitrary: s)
  case Nil
  then show ?case by (simp add: reposition_def)
next
  case (Cons a cids)
  have "fold (update_position f) (a # cids) s = fold (update_position f) cids (update_position f a s)"
    by simp
  also have "\<dots> = reposition (\<lambda>c. if c_id c \<in> set cids then f (position c) else position c) (update_position f a s)"
    using Cons.prems by (intro Cons.IH) simp
  also have "\<dots> = reposition (\<lambda>c. if c_id c \<in> set (a # cids) then f (position c) else position c) s"
    using Cons.prems by (simp add: update_position_def reposition_def)
  finally show ?case .
qed

lemma novel_chapters_reposition:
  "novel_chapters (reposition h s) nid = map (\<lambda>c. c\<lparr>position := h c\<rparr>) (novel_chapters s nid)"
  by (simp add: novel_chapters_def reposition_def filter_map comp_def)

lemma positions_reposition:
  "map position (novel_chapters (reposition h s) nid) = map h (novel_chapters s nid)"
  by (simp add: novel_chapters_reposition comp_def)

lemma distinct_positions_reposition:
  assumes "distinct (map position (novel_chapters s nid))"
    and "\<And>c c'. c \<in> set (novel_chapters s nid) \<Longrightarrow> c' \<in> set (novel_chapters s nid) \<Longrightarrow>
            h c = h c' \<Longrightarrow> position c = position c'"
  shows "distinct (map position (novel_chapters (reposition h s) nid))"
proof -
  from assms(1) have d: "distinct (novel_chapters s nid)" and i: "inj_on position (set (novel_chapters s nid))"
    by (simp_all add: distinct_map)
  have "inj_on h (set (novel_chapters s nid))"
  proof (rule inj_onI)
    fix c c' assume a: "c \<in> set (novel_chapters s nid)" "c' \<in> set (novel_chapters s nid)" "h c = h c'"
    then have "position c = position c'" by (rule assms(2))
    with i a show "c = c'" by (auto dest: inj_onD)
  qed
  with d show ?thesis by (simp add: positions_reposition distinct_map)
qed

lemma assign_trace_prefix:
  "s' \<in> set (assign_trace f cids s) \<Longrightarrow>
   \<exists>k. s' = fold (update_position f) (take k cids) s"
proof (induction cids arbitrary: s)
  case Nil
  then show ?case by simp
next
  case (Cons a cids)
  from Cons.prems have "s' = update_position f a s \<or> s' \<in> set (assign_trace f cids (update_position f a s))"
    by simp
  then show ?case
  proof
    assume "s' = update_position f a s"
    then have "s' = fold (update_position f) (take 1 (a # cids)) s"
      by simp
    then show ?thesis by blast
  next
    assume "s' \<in> set (assign_trace f cids (update_position f a s))"
    from Cons.IH [OF this] obtain k where
      k: "s' = fold (update_position f) (take k cids) (update_position f a s)"
      by blast
    then have "s' = fold (update_position f) (take (Suc k) (a # cids)) s"
      by simp
    then show ?thesis by blast
  qed
qed

lemma distinct_map_sort_key:
  "distinct (map g (sort_key k xs)) = distinct (map g xs)"
  by (rule mset_eq_imp_distinct_iff) simp

lemma chapters_to_shift_distinct:
  "distinct (map c_id (chapters s)) \<Longrightarrow> distinct (chapters_to_shift s nid i)"
  unfolding chapters_to_shift_def
  by (simp add: distinct_map_filter distinct_map_sort_key flip: rev_map)

lemma chapters_to_shift_member:
  assumes "distinct (map c_id (chapters s))" and "c \<in> set (chapters s)"
  shows "c_id c \<in> set (chapters_to_shift s nid i) \<longleftrightarrow> (c_novel_id c = nid \<and> int i \<le> position c)"
proof -
  from assms(1) have inj: "inj_on c_id (set (chapters s))" by (simp add: distinct_map)
  show ?thesis
    using assms(2) inj by (auto simp: chapters_to_shift_def dest: inj_onD)
qed

lemma from_to_temp: "0 \<le> p \<Longrightarrow> from_temp (to_temp p) = p + 1"
  by (simp add: from_temp_def to_temp_def)

lemma reposition_reposition:
  "reposition h2 (reposition h1 s) = reposition (\<lambda>c. h2 (c\<lparr>position := h1 c\<rparr>)) s"
  by (simp add: reposition_def comp_def)

lemma reposition_cong:
  "(\<And>c. c \<in> set (chapters s) \<Longrightarrow> h c = h' c) \<Longrightarrow> reposition h s = reposition h' s"
  by (simp add: reposition_def)

lemma chapters_reposition_ids: "map c_id (chapters (reposition h s)) = map c_id (chapters s)"
  by (simp add: reposition_def comp_def)

lemma direct_shift_reposition:
  "direct_shift nid i s = reposition (\<lambda>c. if c_novel_id c = nid \<and> int i \<le> position c then position c + 1 else position c) s"
  by (simp add: direct_shift_def reposition_def)

lemma both_passes_direct:
  assumes pk: "distinct (map c_id (chapters s))"
  shows "both_passes nid i s = direct_shift nid i s"
proof -
  let ?cids = "chapters_to_shift s nid i"
  let ?h1 = "\<lambda>c. if c_id c \<in> set ?cids then to_temp (position c) else position c"
  let ?h2 = "\<lambda>c. if c_id c \<in> set ?cids then from_temp (position c) else position c"
  have d: "distinct ?cids" using pk by (rule chapters_to_shift_distinct)
  have "both_passes nid i s = reposition ?h2 (reposition ?h1 s)"
    by (simp add: both_passes_def Let_def first_pass_def second_pass_def fold_update_position [OF d])
  also have "\<dots> = reposition (\<lambda>c. ?h2 (c\<lparr>position := ?h1 c\<rparr>)) s"
    by (rule reposition_reposition)
  also have "\<dots> = reposition (\<lambda>c. if c_novel_id c = nid \<and> int i \<le> position c then position c + 1 else position c) s"
  proof (rule reposition_cong)
    fix c assume c: "c \<in> set (chapters s)"
    show "?h2 (c\<lparr>position := ?h1 c\<rparr>) = (if c_novel_id c = nid \<and> int i \<le> position c then position c + 1 else position c)"
      using chapters_to_shift_member [OF pk c, of nid i]
      by (auto simp: from_to_temp)
  qed
  also have "\<dots> = direct_shift nid i s"
    by (simp add: direct_shift_reposition)
  finally show ?thesis .
qed

lemma shift_trace_no_clash:
  assumes pk: "distinct (map c_id (chapters s))"
    and dp: "distinct (map position (novel_chapters s nid))"
    and nn: "\<forall>c \<in> set (novel_chapters s nid). 0 \<le> position c"
    and tr: "s' \<in> set (shift_trace nid i s)"
  shows "distinct (map position (novel_chapters s' nid))"
proof -
  let ?cids = "chapters_to_shift s nid i"
  let ?h1 = "\<lambda>c. if c_id c \<in> set ?cids then to_temp (position c) else position c"
  have d: "distinct ?cids" using pk by (rule chapters_to_shift_distinct)
  have mem: "\<And>c. c \<in> set (novel_chapters s nid) \<Longrightarrow>
      (c_id c \<in> set ?cids \<longleftrightarrow> int i \<le> position c) \<and> 0 \<le> position c"
    using chapters_to_shift_member [OF pk, of _ nid i] nn by (auto simp: novel_chapters_def)
  have "set (shift_trace nid i s) \<subseteq> set (assign_trace to_temp ?cids s)
      \<union> set (assign_trace from_temp ?cids (first_pass ?cids s))"
  proof (cases "list_all (\<lambda>c. c_id c \<in> set ?cids \<longrightarrow> int32_ok (position c))
                  (chapters (first_pass ?cids s))")
    case True
    then have "flush_positions ?cids (first_pass ?cids s) = Inr (first_pass ?cids s)"
      by (simp only: flush_positions_def if_True)
    then show ?thesis by (simp add: shift_trace_def Let_def)
  next
    case False
    then have "flush_positions ?cids (first_pass ?cids s) = Inl DataError"
      by (simp only: flush_positions_def if_False)
    then show ?thesis by (simp add: shift_trace_def Let_def)
  qed
  with tr have "s' \<in> set (assign_trace to_temp ?cids s)
      \<or> s' \<in> set (assign_trace from_temp ?cids (first_pass ?cids s))"
    by blast
  then show ?thesis
  proof
    assume "s' \<in> set (assign_trace to_temp ?cids s)"
    then obtain k where "s' = fold (update_position to_temp) (take k ?cids) s"
      using assign_trace_prefix by blast
    then have s': "s' = reposition (\<lambda>c. if c_id c \<in> set (take k ?cids) then to_temp (position c) else position c) s"
      using d by (simp add: fold_update_position)
    show ?thesis
      unfolding s'
    proof (rule distinct_positions_reposition [OF dp])
      fix c c' assume "c \<in> set (novel_chapters s nid)" "c' \<in> set (novel_chapters s nid)"
        and "(if c_id c \<in> set (take k ?cids) then to_temp (position c) else position c) =
             (if c_id c' \<in> set (take k ?cids) then to_temp (position c') else position c')"
      then show "position c = position c'"
        using mem [of c] mem [of c'] by (auto simp: to_temp_def split: if_splits)
    qed
  next
    assume "s' \<in> set (assign_trace from_temp ?cids (first_pass ?cids s))"
    then obtain k where "s' = fold (update_position from_temp) (take k ?cids) (first_pass ?cids s)"
      using assign_trace_prefix by blast
    then have "s' = reposition (\<lambda>c. if c_id c \<in> set (take k ?cids) then from_temp (position c) else position c)
                      (reposition ?h1 s)"
      using d by (simp add: fold_update_position first_pass_def)
    then have s': "s' = reposition (\<lambda>c. if c_id c \<in> set (take k ?cids) then from_temp (?h1 c) else ?h1 c) s"
      by (simp add: reposition_reposition cong: if_cong)
    have sub: "\<And>x. x \<in> set (take k ?cids) \<Longrightarrow> x \<in> set ?cids"
      by (rule in_set_takeD)
    show ?thesis
      unfolding s'
    proof (rule distinct_positions_reposition [OF dp])
      fix c c' assume "c \<in> set (novel_chapters s nid)" "c' \<in> set (novel_chapters s nid)"
        and "(if c_id c \<in> set (take k ?cids) then from_temp (?h1 c) else ?h1 c) =
             (if c_id c' \<in> set (take k ?cids) then from_temp (?h1 c') else ?h1 c')"
      then show "position c = position c'"
        using mem [of c] mem [of c'] sub [of "c_id c"] sub [of "c_id c'"]
        by (auto simp: to_temp_def from_temp_def split: if_splits)
    qed
  qed
qed

lemma assign_trace_last:
  "cids \<noteq> [] \<Longrightarrow> last (assign_trace f cids s) = fold (update_position f) cids s"
proof (induction cids arbitrary: s)
  case Nil
  then show ?case by simp
next
  case (Cons a cids)
  then show ?case by (cases cids) simp_all
qed

lemma flush_positions_cases:
  "flush_positions cids s = Inl DataError \<or> flush_positions cids s = Inr s"
  by (simp add: flush_positions_def)

lemma shift_chapters_cases:
  assumes pk: "distinct (map c_id (chapters s))"
  shows "shift_chapters nid i s = Inl DataError \<or> shift_chapters nid i s = Inr (direct_shift nid i s)"
proof -
  let ?cids = "chapters_to_shift s nid i"
  from flush_positions_cases [of ?cids "first_pass ?cids s"] show ?thesis
  proof
    assume "flush_positions ?cids (first_pass ?cids s) = Inl DataError"
    then show ?thesis by (simp add: shift_chapters_def Let_def)
  next
    assume f1: "flush_positions ?cids (first_pass ?cids s) = Inr (first_pass ?cids s)"
    have bp: "second_pass ?cids (first_pass ?cids s) = direct_shift nid i s"
      using both_passes_direct [OF pk, of nid i] by (simp add: both_passes_def Let_def)
    from flush_positions_cases [of ?cids "second_pass ?cids (first_pass ?cids s)"] f1 bp
    show ?thesis by (auto simp: shift_chapters_def Let_def)
  qed
qed

lemma flush_first_pass:
  assumes pk: "distinct (map c_id (chapters s))"
    and hi: "\<forall>c \<in> set (novel_chapters s nid). int i \<le> position c \<longrightarrow> position c \<le> max_shiftable"
  shows "flush_positions (chapters_to_shift s nid i) (first_pass (chapters_to_shift s nid i) s)
           = Inr (first_pass (chapters_to_shift s nid i) s)"
proof -
  let ?cids = "chapters_to_shift s nid i"
  let ?h = "\<lambda>c. if c_id c \<in> set ?cids then to_temp (position c) else position c"
  have d: "distinct ?cids" using pk by (rule chapters_to_shift_distinct)
  have fp: "first_pass ?cids s = reposition ?h s"
    by (simp only: first_pass_def fold_update_position [OF d])
  have ok: "int32_ok (to_temp (position c))" if "c \<in> set (chapters s)" "c_id c \<in> set ?cids" for c
  proof -
    from chapters_to_shift_member [OF pk that(1), of nid i] that(2)
    have m: "c_novel_id c = nid" "int i \<le> position c" by simp_all
    with that(1) have "c \<in> set (novel_chapters s nid)" by (simp add: novel_chapters_def)
    with hi m(2) have "position c \<le> max_shiftable" by blast
    with m(2) show ?thesis by (simp add: int32_ok_def to_temp_def max_shiftable_def)
  qed
  have "list_all (\<lambda>c. c_id c \<in> set ?cids \<longrightarrow> int32_ok (position c)) (chapters (reposition ?h s))"
    unfolding list_all_iff
  proof (intro ballI impI)
    fix c' assume c': "c' \<in> set (chapters (reposition ?h s))" "c_id c' \<in> set ?cids"
    then obtain c where c: "c \<in> set (chapters s)" "c' = c\<lparr>position := ?h c\<rparr>"
      by (auto simp: reposition_def)
    with c'(2) have "c_id c \<in> set ?cids" by simp
    with c ok [OF c(1)] show "int32_ok (position c')" by simp
  qed
  then show ?thesis unfolding fp by (simp only: flush_positions_def if_True)
qed

lemma flush_second_pass:
  assumes pk: "distinct (map c_id (chapters s))"
    and hi: "\<forall>c \<in> set (novel_chapters s nid). int i \<le> position c \<longrightarrow> position c \<le> max_shiftable"
  shows "flush_positions (chapters_to_shift s nid i) (direct_shift nid i s) = Inr (direct_shift nid i s)"
proof -
  let ?cids = "chapters_to_shift s nid i"
  let ?h = "\<lambda>c. if c_novel_id c = nid \<and> int i \<le> position c then position c + 1 else position c"
  have "list_all (\<lambda>c. c_id c \<in> set ?cids \<longrightarrow> int32_ok (position c)) (chapters (reposition ?h s))"
    unfolding list_all_iff
  proof (intro ballI impI)
    fix c' assume c': "c' \<in> set (chapters (reposition ?h s))" "c_id c' \<in> set ?cids"
    then obtain c where c: "c \<in> set (chapters s)" "c' = c\<lparr>position := ?h c\<rparr>"
      by (auto simp: reposition_def)
    with c'(2) have "c_id c \<in> set ?cids" by simp
    with chapters_to_shift_member [OF pk c(1), of nid i]
    have m: "c_novel_id c = nid" "int i \<le> position c" by simp_all
    with c(1) have "c \<in> set (novel_chapters s nid)" by (simp add: novel_chapters_def)
    with hi m(2) have "position c \<le> max_shiftable" by blast
    with m c(2) show "int32_ok (position c')" by (simp add: int32_ok_def max_shiftable_def)
  qed
  then show ?thesis
    unfolding direct_shift_reposition by (simp only: flush_positions_def if_True)
qed

lemma shift_chapters_ok:
  assumes pk: "distinct (map c_id (chapters s))"
    and hi: "\<forall>c \<in> set (novel_chapters s nid). int i \<le> position c \<longrightarrow> position c \<le> max_shiftable"
  shows "shift_chapters nid i s = Inr (direct_shift nid i s)"
proof -
  let ?cids = "chapters_to_shift s nid i"
  have bp: "second_pass ?cids (first_pass ?cids s) = direct_shift nid i s"
    using both_passes_direct [OF pk, of nid i] by (simp add: both_passes_def Let_def)
  show ?thesis
    by (simp add: shift_chapters_def Let_def flush_first_pass [OF pk hi] bp
        flush_second_pass [OF pk hi])
qed

section \<open>Auxiliary lemmas: the insertion transaction\<close>

lemma update_position_locks:
  "update_position f a (s\<lparr>row_locks := l\<rparr>) = (update_position f a s)\<lparr>row_locks := l\<rparr>"
  by (simp add: update_position_def)

lemma fold_update_position_locks:
  "fold (update_position f) cids (s\<lparr>row_locks := l\<rparr>) = (fold (update_position f) cids s)\<lparr>row_locks := l\<rparr>"
  by (induction cids arbitrary: s) (simp_all add: update_position_locks)

lemma fold_update_position_frame:
  "row_locks (fold (update_position f) cids s) = row_locks s
   \<and> novels (fold (update_position f) cids s) = novels s
   \<and> next_chapter_id (fold (update_position f) cids s) = next_chapter_id s"
  by (induction cids arbitrary: s) (simp_all add: update_position_def)

lemma update_position_map:
  assumes "\<And>c p. g (c\<lparr>position := p\<rparr>) = g c"
  shows "map g (chapters (update_position f cid s)) = map g (chapters s)"
  by (simp add: update_position_def comp_def assms if_distrib [of g] cong: if_cong)

lemma fold_update_position_map:
  assumes "\<And>c p. g (c\<lparr>position := p\<rparr>) = g c"
  shows "map g (chapters (fold (update_position f) cids s)) = map g (chapters s)"
  by (induction cids arbitrary: s) (simp_all add: update_position_map [of g, OF assms])

lemma both_passes_locks:
  "both_passes nid i (s\<lparr>row_locks := l\<rparr>) = (both_passes nid i s)\<lparr>row_locks := l\<rparr>"
  by (simp add: both_passes_def Let_def chapters_to_shift_def first_pass_def second_pass_def
      fold_update_position_locks)

lemma both_passes_frame:
  "row_locks (both_passes nid i s) = row_locks s
   \<and> novels (both_passes nid i s) = novels s
   \<and> next_chapter_id (both_passes nid i s) = next_chapter_id s"
  by (simp add: both_passes_def Let_def first_pass_def second_pass_def fold_update_position_frame)

lemma both_passes_map:
  assumes "\<And>c p. g (c\<lparr>position := p\<rparr>) = g c"
  shows "map g (chapters (both_passes nid i s)) = map g (chapters s)"
  by (simp add: both_passes_def Let_def first_pass_def second_pass_def
      fold_update_position_map [of g, OF assms])

lemma shift_chapters_Inr:
  assumes "shift_chapters nid i s = Inr s1"
  shows "s1 = both_passes nid i s"
proof -
  let ?cids = "chapters_to_shift s nid i"
  from flush_positions_cases [of ?cids "first_pass ?cids s"] assms
  have f1: "flush_positions ?cids (first_pass ?cids s) = Inr (first_pass ?cids s)"
    by (auto simp: shift_chapters_def Let_def)
  with assms have "flush_positions ?cids (second_pass ?cids (first_pass ?cids s)) = Inr s1"
    by (simp add: shift_chapters_def Let_def)
  with flush_positions_cases [of ?cids "second_pass ?cids (first_pass ?cids s)"]
  show ?thesis by (simp add: both_passes_def Let_def)
qed

lemma flush_positions_locks:
  "flush_positions cids (s\<lparr>row_locks := l\<rparr>)
     = map_sum (\<lambda>e. e) (\<lambda>s1. s1\<lparr>row_locks := l\<rparr>) (flush_positions cids s)"
  by (simp add: flush_positions_def)

lemma shift_chapters_locks:
  "shift_chapters nid i (s\<lparr>row_locks := l\<rparr>)
     = map_sum (\<lambda>e. e) (\<lambda>s1. s1\<lparr>row_locks := l\<rparr>) (shift_chapters nid i s)"
proof -
  let ?cids = "chapters_to_shift s nid i"
  have c: "chapters_to_shift (s\<lparr>row_locks := l\<rparr>) nid i = ?cids"
    by (simp add: chapters_to_shift_def)
  have fp: "first_pass ?cids (s\<lparr>row_locks := l\<rparr>) = (first_pass ?cids s)\<lparr>row_locks := l\<rparr>"
    by (simp add: first_pass_def fold_update_position_locks)
  have sp: "\<And>s1. second_pass ?cids (s1\<lparr>row_locks := l\<rparr>) = (second_pass ?cids s1)\<lparr>row_locks := l\<rparr>"
    by (simp add: second_pass_def fold_update_position_locks)
  from flush_positions_cases [of ?cids "first_pass ?cids s"] show ?thesis
  proof
    assume "flush_positions ?cids (first_pass ?cids s) = Inl DataError"
    then show ?thesis
      by (simp add: shift_chapters_def Let_def c fp flush_positions_locks)
  next
    assume "flush_positions ?cids (first_pass ?cids s) = Inr (first_pass ?cids s)"
    then show ?thesis
      by (simp add: shift_chapters_def Let_def c fp sp flush_positions_locks)
  qed
qed

lemma assign_position_locks:
  "assign_position fl nid cd (s\<lparr>row_locks := l\<rparr>)
     = map_sum (\<lambda>e. e) (\<lambda>(p, s1). (p, s1\<lparr>row_locks := l\<rparr>)) (assign_position fl nid cd s)"
proof -
  have cb: "chapters_by_position (s\<lparr>row_locks := l\<rparr>) nid = chapters_by_position s nid"
    by (simp add: chapters_by_position_def novel_chapters_def)
  show ?thesis
    by (cases "shift_chapters nid (compute_insert_pos fl cd (chapters_by_position s nid)) s")
       (simp_all add: assign_position_def Let_def cb shift_chapters_locks split: option.splits)
qed

lemma assign_position_Inr:
  assumes "assign_position fl nid cd s = Inr (p, s1)"
  shows "s1 = s \<or> (\<exists>i. s1 = both_passes nid i s)"
  using assms
  by (auto simp: assign_position_def Let_def split: option.splits if_splits sum.splits
      dest: shift_chapters_Inr)

lemma assign_position_frame:
  assumes "assign_position fl nid cd s = Inr (p, s1)"
  shows "row_locks s1 = row_locks s \<and> novels s1 = novels s \<and> next_chapter_id s1 = next_chapter_id s"
  using assign_position_Inr [OF assms] both_passes_frame by auto

lemma assign_position_map:
  assumes "\<And>c p. g (c\<lparr>position := p\<rparr>) = g c"
    and "assign_position fl nid cd s = Inr (p, s1)"
  shows "map g (chapters s1) = map g (chapters s)"
  using assign_position_Inr [OF assms(2)] both_passes_map [of g, OF assms(1)] by auto

lemma assign_position_length:
  "assign_position fl nid cd s = Inr (p, s1) \<Longrightarrow> length (chapters s1) = length (chapters s)"
  using assign_position_map [of "\<lambda>_. ()" fl nid cd s p s1] by (metis length_map)

lemma assign_position_index:
  assumes "d_position cd = None" and "assign_position fl nid cd s = Inr (p, s1)"
  shows "p = int (compute_insert_pos fl cd (chapters_by_position s nid))"
  using assms by (auto simp: assign_position_def Let_def split: if_splits sum.splits)

lemma add_and_flush_Inr:
  "add_and_flush s1 nid sl cd pos = (Inr c, s2) \<Longrightarrow>
     c = \<lparr>c_id = next_chapter_id s1, c_novel_id = nid, c_slug = sl,
          chapter_number = d_chapter_number cd, source_url = d_source_url cd, position = pos\<rparr>
     \<and> s2 = s1\<lparr>next_chapter_id := Suc (next_chapter_id s1), chapters := chapters s1 @ [c]\<rparr>"
  by (auto simp: add_and_flush_def Let_def split: if_splits)

lemma add_and_flush_Inl:
  "add_and_flush s1 nid sl cd pos = (Inl e, s2) \<Longrightarrow>
     chapters s2 = chapters s1 \<and> next_chapter_id s1 \<le> next_chapter_id s2"
  by (auto simp: add_and_flush_def Let_def split: if_splits)

lemma add_and_flush_frame:
  "add_and_flush s1 nid sl cd pos = (r, s2) \<Longrightarrow>
     row_locks s2 = row_locks s1 \<and> novels s2 = novels s1"
  by (auto simp: add_and_flush_def Let_def split: if_splits)

lemma add_and_flush_locks:
  "add_and_flush (s1\<lparr>row_locks := l\<rparr>) nid sl cd pos
     = (fst (add_and_flush s1 nid sl cd pos), (snd (add_and_flush s1 nid sl cd pos))\<lparr>row_locks := l\<rparr>)"
  by (auto simp: add_and_flush_def Let_def)

lemma set_own_locks: "row_locks s2 = l \<Longrightarrow> s2\<lparr>row_locks := l\<rparr> = s2"
  by auto

lemma set_own_sequence: "next_chapter_id s1 = k \<Longrightarrow> s1\<lparr>next_chapter_id := k\<rparr> = s1"
  by auto

lemma add_chapter_atomic_found:
  assumes nov: "query_novel s u slug = Some n"
  shows "add_chapter_atomic fl u slug cd s =
    (case duplicate_check s (n_id n) (d_source_url cd) of
       Some e \<Rightarrow> (Inr (skipped_result n e), s)
     | None \<Rightarrow>
        (case assign_position fl (n_id n) cd s of
           Inl e \<Rightarrow> (Inl e, s)
         | Inr (pos, s1) \<Rightarrow>
            (case d_slug cd of
               None \<Rightarrow> (Inl (KeyError ''slug''), s)
             | Some sl \<Rightarrow>
                (case add_and_flush s1 (n_id n) sl cd pos of
                   (Inl e, s2) \<Rightarrow> (Inl e, s\<lparr>next_chapter_id := next_chapter_id s2\<rparr>)
                 | (Inr c, s2) \<Rightarrow> (Inr (inserted_result n c), s2)))))"
proof -
  let ?L = "n_id n # row_locks s"
  let ?sl = "s\<lparr>row_locks := ?L\<rparr>"
  have dc: "duplicate_check ?sl (n_id n) (d_source_url cd)
      = duplicate_check s (n_id n) (d_source_url cd)"
    by (simp add: duplicate_check_def find_by_source_url_def split: option.splits)
  have body: "add_chapter_body fl u slug cd s =
      (case duplicate_check s (n_id n) (d_source_url cd) of
         Some e \<Rightarrow> (Inr (skipped_result n e), ?sl)
       | None \<Rightarrow>
          (case assign_position fl (n_id n) cd ?sl of
             Inl e \<Rightarrow> (Inl e, ?sl)
           | Inr (pos, s1) \<Rightarrow>
              (case d_slug cd of
                 None \<Rightarrow> (Inl (KeyError ''slug''), s1)
               | Some sl \<Rightarrow>
                  (case add_and_flush s1 (n_id n) sl cd pos of
                     (Inl e, s2) \<Rightarrow> (Inl e, s2)
                   | (Inr c, s2) \<Rightarrow> (Inr (inserted_result n c), s2)))))"
    by (simp add: add_chapter_body_def query_novel_for_update_def nov dc)
  show ?thesis
  proof (cases "duplicate_check s (n_id n) (d_source_url cd)")
    case (Some e)
    then show ?thesis
      by (simp add: add_chapter_atomic_def db_session_scope_def body)
  next
    case None
    show ?thesis
    proof (cases "assign_position fl (n_id n) cd s")
      case (Inl e)
      then show ?thesis
        by (simp add: add_chapter_atomic_def db_session_scope_def body None assign_position_locks)
    next
      case (Inr ps)
      obtain pos s1 where ps: "ps = (pos, s1)" by (cases ps)
      note ap = Inr [unfolded ps]
      from assign_position_frame [OF ap]
      have fr: "row_locks s1 = row_locks s" "novels s1 = novels s" "next_chapter_id s1 = next_chapter_id s"
        by simp_all
      have apl: "assign_position fl (n_id n) cd ?sl = Inr (pos, s1\<lparr>row_locks := ?L\<rparr>)"
        by (simp add: assign_position_locks ap)
      show ?thesis
      proof (cases "d_slug cd")
        case dn: None
        then show ?thesis
          by (simp add: add_chapter_atomic_def db_session_scope_def body None apl ap fr)
      next
        case (Some sl)
        obtain r s2 where af: "add_and_flush s1 (n_id n) sl cd pos = (r, s2)"
          by (cases "add_and_flush s1 (n_id n) sl cd pos")
        from add_and_flush_frame [OF af] fr have l2: "row_locks s2 = row_locks s" by simp
        have afl: "add_and_flush (s1\<lparr>row_locks := ?L\<rparr>) (n_id n) sl cd pos = (r, s2\<lparr>row_locks := ?L\<rparr>)"
          by (simp add: add_and_flush_locks af)
        show ?thesis
        proof (cases r)
          case (Inl e)
          then show ?thesis
            by (simp add: add_chapter_atomic_def db_session_scope_def body None apl ap Some afl af)
        next
          case (Inr c)
          then show ?thesis
            by (simp add: add_chapter_atomic_def db_session_scope_def body None apl ap Some afl af
                set_own_locks [OF l2])
        qed
      qed
    qed
  qed
qed

lemma first_index_where_le: "first_index_where P xs \<le> length xs"
  by (induction xs) simp_all

lemma first_index_where_before: "j < first_index_where P xs \<Longrightarrow> \<not> P (xs ! j)"
proof (induction xs arbitrary: j)
  case Nil
  then show ?case by simp
next
  case (Cons x xs)
  then show ?case by (cases j) (auto split: if_splits)
qed

lemma first_index_where_at:
  "first_index_where P xs < length xs \<Longrightarrow> P (xs ! first_index_where P xs)"
  by (induction xs) (auto split: if_splits)

lemma first_index_where_none: "(\<forall>x \<in> set xs. \<not> P x) \<Longrightarrow> first_index_where P xs = length xs"
  by (induction xs) simp_all

lemma episode_loop_spec:
  "episode_loop k idx xs (idx + length xs) = idx + first_index_where (key_greater k) xs"
proof (induction xs arbitrary: idx)
  case Nil
  then show ?case by simp
next
  case (Cons x xs)
  from Cons.IH [of "Suc idx"] show ?case
    by (simp add: key_greater_def split: option.splits)
qed

lemma number_loop_spec:
  "number_loop fl v idx xs (idx + length xs) = idx + first_index_where (number_greater fl v) xs"
proof (induction xs arbitrary: idx)
  case Nil
  then show ?case by simp
next
  case (Cons x xs)
  from Cons.IH [of "Suc idx"] show ?case
    by (simp add: number_greater_def)
qed

lemma compute_insert_pos_spec:
  "compute_insert_pos fl cd xs =
     (case extract_episode_id_from_url (d_source_url cd) of
        Some k \<Rightarrow> first_index_where (key_greater k) xs
      | None \<Rightarrow> first_index_where (number_greater fl (parse_chapter_number fl (d_chapter_number cd))) xs)"
  using episode_loop_spec [of _ 0 xs] number_loop_spec [of fl _ 0 xs]
  by (simp add: compute_insert_pos_def split: option.splits)

lemma add_chapter_atomic_inserted:
  assumes ok: "add_chapter_atomic fl u slug cd s = (Inr r, s')"
    and new: "already_exists r \<noteq> Some True"
    and nov: "query_novel s u slug = Some n"
  obtains sl c pos s1 where "d_slug cd = Some sl"
    and "duplicate_check s (n_id n) (d_source_url cd) = None"
    and "assign_position fl (n_id n) cd s = Inr (pos, s1)"
    and "add_and_flush s1 (n_id n) sl cd pos = (Inr c, s')"
    and "r = inserted_result n c"
  using ok new unfolding add_chapter_atomic_found [OF nov]
  by (auto simp: skipped_result_def split: option.splits sum.splits prod.splits)

lemma parse_chapter_number_sentinel:
  "ns = None \<or> ns = Some [] \<or> ns = Some ''BONUS'' \<or> (\<exists>t. ns = Some t \<and> float_of t = None)
   \<Longrightarrow> parse_chapter_number float_of ns = Finite 999999"
  by (auto simp: parse_chapter_number_def)

lemma add_chapter_atomic_Inr_found:
  "add_chapter_atomic fl u slug cd s = (Inr r, s') \<Longrightarrow> \<exists>n. query_novel s u slug = Some n"
  by (cases "query_novel s u slug")
     (simp_all add: add_chapter_atomic_def db_session_scope_def add_chapter_body_def
        query_novel_for_update_def)

lemma add_chapter_atomic_missing:
  "query_novel s u slug = None \<Longrightarrow> add_chapter_atomic fl u slug cd s = (Inl (ValueError slug), s)"
  by (simp add: add_chapter_atomic_def db_session_scope_def add_chapter_body_def
      query_novel_for_update_def)

lemma add_chapter_atomic_novels:
  assumes "add_chapter_atomic fl u slug cd s = (res, s')"
  shows "novels s' = novels s"
proof (cases "query_novel s u slug")
  case None
  with assms show ?thesis by (simp add: add_chapter_atomic_missing)
next
  case (Some n)
  show ?thesis
    using assms unfolding add_chapter_atomic_found [OF Some]
    by (auto split: option.splits sum.splits prod.splits dest: assign_position_frame)
       (metis add_and_flush_frame assign_position_frame)
qed

lemma add_chapter_atomic_result_cases:
  assumes ok: "add_chapter_atomic fl u slug cd s = (Inr r, s')"
    and nov: "query_novel s u slug = Some n"
  shows "(\<exists>e. duplicate_check s (n_id n) (d_source_url cd) = Some e \<and> r = skipped_result n e \<and> s' = s)
       \<or> (already_exists r = None \<and> duplicate_check s (n_id n) (d_source_url cd) = None)"
  using ok unfolding add_chapter_atomic_found [OF nov]
  by (auto simp: inserted_result_def split: option.splits sum.splits prod.splits)

lemma duplicate_check_Some:
  "duplicate_check s nid url_opt = Some e \<Longrightarrow>
     e \<in> set (chapters s) \<and> c_novel_id e = nid \<and> source_url e = url_opt \<and> url_opt \<noteq> None \<and> url_opt \<noteq> Some []"
  by (auto simp: duplicate_check_def find_by_source_url_def find_Some_iff split: option.splits if_splits)

lemma duplicate_check_exists:
  assumes "c \<in> set (chapters s)" "c_novel_id c = nid" "source_url c = Some url" "url \<noteq> []"
  shows "\<exists>e. duplicate_check s nid (Some url) = Some e"
proof -
  have "find (\<lambda>c. c_novel_id c = nid \<and> source_url c = Some url) (chapters s) \<noteq> None"
    using assms by (auto simp: find_None_iff)
  then show ?thesis
    using assms(4) by (auto simp: duplicate_check_def find_by_source_url_def)
qed

lemma duplicate_check_skipped:
  "url_opt = None \<or> url_opt = Some [] \<Longrightarrow> duplicate_check s nid url_opt = None"
  by (auto simp: duplicate_check_def)

section \<open>Auxiliary lemmas: sorting\<close>

lemma map_filter_map_Some: "List.map_filter (\<lambda>ch. ch) (map Some xs) = xs"
  by (induction xs) (simp_all add: List.map_filter_simps)

lemma mset_py_sorted: "mset (py_sorted k rv xs) = mset xs"
  by (simp add: py_sorted_def)

lemma py_sorted_idem: "py_sorted k rv (py_sorted k rv xs) = py_sorted k rv xs"
  by (simp add: py_sorted_def sort_key_id_if_sorted)

lemma sort_key_unique:
  assumes d: "distinct (map k xs)" and m: "mset ys = mset xs"
  shows "sort_key k ys = sort_key k xs"
proof -
  have s: "set ys = set xs" using m by (rule mset_eq_setD)
  have dk: "distinct (map k (sort_key k xs))"
    using d by (simp add: distinct_map)
  have "mset (map k ys) = mset (map k xs)" using m by simp
  then have "distinct (map k ys)" using d by (metis mset_eq_imp_distinct_iff)
  then have dk': "distinct (map k (sort_key k ys))"
    by (simp add: distinct_map)
  have "map k (sort_key k ys) = map k (sort_key k xs)"
    by (rule sorted_distinct_set_unique) (use dk dk' s in simp_all)
  moreover have "inj_on k (set (sort_key k ys) \<union> set (sort_key k xs))"
    using d s by (simp add: distinct_map)
  ultimately show ?thesis by (simp add: inj_on_map_eq_map)
qed

lemma py_sorted_reverse:
  assumes "distinct (map k xs)"
  shows "py_sorted k False xs = rev (py_sorted k True xs)"
  using sort_key_unique [OF assms, of "rev xs"] by (simp add: py_sorted_def)

section \<open>Auxiliary lemmas: renormalization\<close>

lemma new_position_Cons:
  "new_position idx (a # cids) cid = (if cid = a then Some (int idx) else new_position (Suc idx) cids cid)"
proof -
  have "[idx ..< idx + length (a # cids)] = idx # [Suc idx ..< Suc idx + length cids]"
    by (simp add: upt_conv_Cons del: upt_Suc)
  then show ?thesis by (simp add: new_position_def del: upt_Suc)
qed

lemma new_position_None: "cid \<notin> set cids \<Longrightarrow> new_position idx cids cid = None"
  by (simp add: new_position_def map_of_zip_is_None)

lemma new_position_nth:
  "distinct cids \<Longrightarrow> j < length cids \<Longrightarrow> new_position idx cids (cids ! j) = Some (int (idx + j))"
proof (induction cids arbitrary: idx j)
  case Nil
  then show ?case by simp
next
  case (Cons a cids)
  show ?case
  proof (cases j)
    case 0
    then show ?thesis by (simp add: new_position_Cons)
  next
    case (Suc j')
    with Cons.prems have "cids ! j' \<noteq> a" "j' < length cids" "distinct cids" by auto
    with Cons.IH [of j' "Suc idx"] Suc show ?thesis by (simp add: new_position_Cons)
  qed
qed

lemma renormalize_reposition:
  "distinct cids \<Longrightarrow>
   renormalize idx cids s =
     reposition (\<lambda>c. case new_position idx cids (c_id c) of Some p \<Rightarrow> p | None \<Rightarrow> position c) s"
proof (induction cids arbitrary: idx s)
  case Nil
  then show ?case by (simp add: reposition_def new_position_def)
next
  case (Cons a cids)
  let ?s1 = "update_position (\<lambda>p. if p \<noteq> int idx then int idx else p) a s"
  have "renormalize idx (a # cids) s = renormalize (Suc idx) cids ?s1" by simp
  also have "\<dots> = reposition (\<lambda>c. case new_position (Suc idx) cids (c_id c) of Some p \<Rightarrow> p | None \<Rightarrow> position c) ?s1"
    using Cons.prems by (intro Cons.IH) simp
  also have "\<dots> = reposition (\<lambda>c. case new_position idx (a # cids) (c_id c) of Some p \<Rightarrow> p | None \<Rightarrow> position c) s"
    using Cons.prems
    by (simp add: update_position_def reposition_def new_position_Cons new_position_None)
  finally show ?case .
qed


lemma remove1_eq_filter: "distinct xs \<Longrightarrow> remove1 x xs = filter (\<lambda>y. y \<noteq> x) xs"
  by (simp add: distinct_remove1_removeAll removeAll_filter_not_eq) (metis (mono_tags, lifting) filter_cong)

lemma sort_key_remove1:
  assumes "distinct xs"
  shows "sort_key k (remove1 x xs) = remove1 x (sort_key k xs)"
proof -
  have "distinct (sort_key k xs)" using assms by simp
  then show ?thesis
    using assms by (simp add: remove1_eq_filter filter_sort)
qed

lemma distinct_map_remove1: "distinct (map g xs) \<Longrightarrow> distinct (map g (remove1 x xs))"
proof -
  assume d: "distinct (map g xs)"
  then have "distinct xs" "inj_on g (set xs)" by (simp_all add: distinct_map)
  moreover have "set (remove1 x xs) \<subseteq> set xs" by (rule set_remove1_subset)
  ultimately show ?thesis
    by (simp add: distinct_map inj_on_subset)
qed

lemma sort_key_eqI:
  assumes "mset zs = mset xs" "sorted (map k zs)" "distinct (map k zs)"
  shows "sort_key k xs = zs"
proof -
  have "sort_key k xs = sort_key k zs"
    using assms(1,3) by (intro sort_key_unique) simp_all
  also have "\<dots> = zs" using assms(2) by (rule sort_key_id_if_sorted)
  finally show ?thesis .
qed

lemma positions_renumbered: "map position (renumbered cs) = map int [0 ..< length cs]"
proof -
  have "map position (renumbered cs) = map (int \<circ> fst) (enumerate 0 cs)"
    by (simp add: renumbered_def comp_def case_prod_unfold)
  also have "\<dots> = map int (map fst (enumerate 0 cs))" by (rule map_map [symmetric])
  also have "\<dots> = map int [0 ..< length cs]" by (simp only: map_fst_enumerate) simp
  finally show ?thesis .
qed

lemma renumbered_map:
  assumes d: "distinct (map c_id cs)"
  shows "renumbered cs =
     map (\<lambda>c. c\<lparr>position := (case new_position 0 (map c_id cs) (c_id c) of Some p \<Rightarrow> p | None \<Rightarrow> position c)\<rparr>) cs"
proof (rule nth_equalityI)
  show "length (renumbered cs) = length (map (\<lambda>c. c\<lparr>position := (case new_position 0 (map c_id cs) (c_id c) of Some p \<Rightarrow> p | None \<Rightarrow> position c)\<rparr>) cs)"
    by (simp add: renumbered_def)
next
  fix j assume "j < length (renumbered cs)"
  then have j: "j < length cs" by (simp add: renumbered_def)
  then have "new_position 0 (map c_id cs) (map c_id cs ! j) = Some (int (0 + j))"
    using d by (intro new_position_nth) simp_all
  then have "new_position 0 (map c_id cs) (c_id (cs ! j)) = Some (int j)"
    using j by simp
  then show "renumbered cs ! j = map (\<lambda>c. c\<lparr>position := (case new_position 0 (map c_id cs) (c_id c) of Some p \<Rightarrow> p | None \<Rightarrow> position c)\<rparr>) cs ! j"
    using j by (simp add: renumbered_def nth_enumerate_eq)
qed

lemma remaining_chapters:
  assumes pk: "distinct (map c_id (chapters s))"
  shows "chapters_by_position (s\<lparr>chapters := remove1 ch (chapters s)\<rparr>) nid
           = remove1 ch (chapters_by_position s nid)"
proof -
  have "distinct (chapters s)" using pk by (simp add: distinct_map)
  then have "distinct (filter (\<lambda>c. c_novel_id c = nid) (chapters s))" by simp
  then show ?thesis
    by (simp add: chapters_by_position_def novel_chapters_def filter_remove1 sort_key_remove1)
qed

lemma after_delete_reposition:
  assumes pk: "distinct (map c_id (chapters s))"
  shows "after_delete s nid ch =
     reposition (\<lambda>c. case new_position 0 (map c_id (remove1 ch (chapters_by_position s nid))) (c_id c) of
                        Some p \<Rightarrow> p | None \<Rightarrow> position c)
       (s\<lparr>chapters := remove1 ch (chapters s)\<rparr>)"
proof -
  have "distinct (map c_id (filter (\<lambda>c. c_novel_id c = nid) (chapters s)))"
    using pk by (rule distinct_map_filter)
  then have "distinct (map c_id (chapters_by_position s nid))"
    by (simp add: chapters_by_position_def novel_chapters_def distinct_map_sort_key)
  then have "distinct (map c_id (remove1 ch (chapters_by_position s nid)))"
    by (rule distinct_map_remove1)
  then show ?thesis
    by (simp add: after_delete_def Let_def remaining_chapters [OF pk] renormalize_reposition)
qed

lemma after_delete_same_novel:
  assumes pk: "distinct (map c_id (chapters s))"
  shows "chapters_by_position (after_delete s nid ch) nid
           = renumbered (remove1 ch (chapters_by_position s nid))"
proof -
  let ?rem = "remove1 ch (chapters_by_position s nid)"
  let ?h = "\<lambda>c. case new_position 0 (map c_id ?rem) (c_id c) of Some p \<Rightarrow> p | None \<Rightarrow> position c"
  let ?G = "\<lambda>c. c\<lparr>position := ?h c\<rparr>"
  let ?s1 = "s\<lparr>chapters := remove1 ch (chapters s)\<rparr>"
  have "distinct (map c_id (filter (\<lambda>c. c_novel_id c = nid) (chapters s)))"
    using pk by (rule distinct_map_filter)
  then have "distinct (map c_id (chapters_by_position s nid))"
    by (simp add: chapters_by_position_def novel_chapters_def distinct_map_sort_key)
  then have d: "distinct (map c_id ?rem)"
    by (rule distinct_map_remove1)
  have rn: "renumbered ?rem = map ?G ?rem" using d by (rule renumbered_map)
  have rem: "?rem = sort_key position (novel_chapters ?s1 nid)"
    using remaining_chapters [OF pk, of ch nid] by (simp add: chapters_by_position_def)
  have "chapters_by_position (after_delete s nid ch) nid
      = sort_key position (map ?G (novel_chapters ?s1 nid))"
    by (simp add: after_delete_reposition [OF pk] chapters_by_position_def novel_chapters_reposition)
  also have "\<dots> = renumbered ?rem"
  proof (rule sort_key_eqI)
    show "mset (renumbered ?rem) = mset (map ?G (novel_chapters ?s1 nid))"
      unfolding rn by (subst rem) simp
    show "sorted (map position (renumbered ?rem))"
      by (simp only: positions_renumbered) (simp add: sorted_map strict_sorted_iff [symmetric])
    show "distinct (map position (renumbered ?rem))"
      by (simp only: positions_renumbered) (simp add: distinct_map inj_on_def)
  qed
  finally show ?thesis .
qed

lemma renormalize_locks:
  "renormalize idx cids (s\<lparr>row_locks := l\<rparr>) = (renormalize idx cids s)\<lparr>row_locks := l\<rparr>"
  by (induction cids arbitrary: idx s) (simp_all add: update_position_locks)

lemma renormalize_frame:
  "row_locks (renormalize idx cids s) = row_locks s
   \<and> novels (renormalize idx cids s) = novels s
   \<and> next_chapter_id (renormalize idx cids s) = next_chapter_id s"
  by (induction cids arbitrary: idx s) (simp_all add: update_position_def)

lemma renormalize_map:
  assumes "\<And>c p. g (c\<lparr>position := p\<rparr>) = g c"
  shows "map g (chapters (renormalize idx cids s)) = map g (chapters s)"
  by (induction cids arbitrary: idx s) (simp_all add: update_position_map [of g, OF assms])

lemma db_update_comm:
  "(s\<lparr>row_locks := l\<rparr>)\<lparr>chapters := X\<rparr> = (s\<lparr>chapters := X\<rparr>)\<lparr>row_locks := l\<rparr>"
  by (cases s) simp

lemma set_py_sorted: "set (py_sorted k rv xs) = set xs"
  by (simp add: py_sorted_def)

lemma after_delete_locks:
  "after_delete (s\<lparr>row_locks := l\<rparr>) nid ch = (after_delete s nid ch)\<lparr>row_locks := l\<rparr>"
proof -
  let ?cids = "map c_id (chapters_by_position (s\<lparr>chapters := remove1 ch (chapters s)\<rparr>) nid)"
  have "after_delete (s\<lparr>row_locks := l\<rparr>) nid ch
      = renormalize 0 ?cids ((s\<lparr>chapters := remove1 ch (chapters s)\<rparr>)\<lparr>row_locks := l\<rparr>)"
    by (simp add: after_delete_def Let_def chapters_by_position_def novel_chapters_def
        db_update_comm)
  also have "\<dots> = (renormalize 0 ?cids (s\<lparr>chapters := remove1 ch (chapters s)\<rparr>))\<lparr>row_locks := l\<rparr>"
    by (rule renormalize_locks)
  also have "\<dots> = (after_delete s nid ch)\<lparr>row_locks := l\<rparr>"
    by (simp add: after_delete_def Let_def)
  finally show ?thesis .
qed

lemma after_delete_frame:
  "row_locks (after_delete s nid ch) = row_locks s
   \<and> novels (after_delete s nid ch) = novels s
   \<and> next_chapter_id (after_delete s nid ch) = next_chapter_id s"
  by (simp add: after_delete_def Let_def renormalize_frame)

lemma after_delete_ids:
  "map c_id (chapters (after_delete s nid ch)) = map c_id (remove1 ch (chapters s))"
  by (simp add: after_delete_def Let_def renormalize_map)

lemma after_delete_other_novel:
  assumes pk: "distinct (map c_id (chapters s))"
    and ch: "c_novel_id ch = nid" and other: "nid' \<noteq> nid"
  shows "novel_chapters (after_delete s nid ch) nid' = novel_chapters s nid'"
proof -
  let ?rem = "remove1 ch (chapters_by_position s nid)"
  let ?h = "\<lambda>c. case new_position 0 (map c_id ?rem) (c_id c) of Some p \<Rightarrow> p | None \<Rightarrow> position c"
  have inj: "inj_on c_id (set (chapters s))" using pk by (simp add: distinct_map)
  have keep: "?h c = position c" if c: "c \<in> set (novel_chapters s nid')" for c
  proof -
    have "c_id c \<notin> set (map c_id ?rem)"
    proof
      assume "c_id c \<in> set (map c_id ?rem)"
      then obtain c' where c': "c' \<in> set ?rem" "c_id c' = c_id c" by auto
      from c'(1) have "c' \<in> set (chapters_by_position s nid)"
        using set_remove1_subset by fastforce
      then have "c' \<in> set (chapters s)" "c_novel_id c' = nid"
        by (simp_all add: chapters_by_position_def novel_chapters_def)
      moreover from c have "c \<in> set (chapters s)" "c_novel_id c = nid'"
        by (simp_all add: novel_chapters_def)
      ultimately show False using inj c'(2) other by (auto dest: inj_onD)
    qed
    then show ?thesis by (simp add: new_position_None)
  qed
  have "novel_chapters (s\<lparr>chapters := remove1 ch (chapters s)\<rparr>) nid' = novel_chapters s nid'"
    using ch other by (simp add: novel_chapters_def filter_remove1 remove1_idem)
  then have "novel_chapters (after_delete s nid ch) nid'
      = map (\<lambda>c. c\<lparr>position := ?h c\<rparr>) (novel_chapters s nid')"
    by (simp add: after_delete_reposition [OF pk] novel_chapters_reposition)
  also have "\<dots> = map (\<lambda>c. c) (novel_chapters s nid')"
    by (rule map_cong) (simp_all add: keep)
  finally show ?thesis by simp
qed

lemma find_by_id:
  assumes "distinct (map c_id xs)" "c \<in> set xs"
  shows "find (\<lambda>x. c_id x = c_id c) xs = Some c"
  using assms by (induction xs) (auto simp: rev_image_eqI)

lemma delete_chapter_body_found:
  assumes pk: "distinct (map c_id (chapters s))"
    and nov: "query_novel s u slug = Some n" and ch: "ch \<in> set (chapters s)"
  shows "db_session_scope (delete_chapter_body u slug (c_id ch)) s
           = (Inr True, after_delete s (n_id n) ch)"
proof -
  let ?l = "n_id n # row_locks s"
  have "delete_chapter_body u slug (c_id ch) s
      = (Inr True, after_delete (s\<lparr>row_locks := ?l\<rparr>) (n_id n) ch)"
    by (simp add: delete_chapter_body_def query_novel_for_update_def nov find_by_id [OF pk ch]
        after_delete_def Let_def)
  then have "db_session_scope (delete_chapter_body u slug (c_id ch)) s
      = (Inr True, (after_delete s (n_id n) ch)\<lparr>row_locks := row_locks s\<rparr>)"
    by (simp add: db_session_scope_def after_delete_locks)
  moreover have "(after_delete s (n_id n) ch)\<lparr>row_locks := row_locks s\<rparr> = after_delete s (n_id n) ch"
    using after_delete_frame [of s "n_id n" ch] by (metis db.surjective db.update_convs(4))
  ultimately show ?thesis by simp
qed

lemma py_index_Inr: "py_index xs i = Inr x \<Longrightarrow> x \<in> set xs"
  by (auto simp: py_index_def Let_def split: if_splits)

lemma delete_chapter_cases:
  assumes pk: "distinct (map c_id (chapters s))"
  shows "(snd (delete_chapter dso u slug i s) = s \<and> fst (delete_chapter dso u slug i s) \<noteq> Inr True)
       \<or> (\<exists>n ch. query_novel s u slug = Some n
              \<and> py_index (sort_chapters_by_number (\<lambda>c. Some (position c))
                            (map Some (chapters_by_position s (n_id n)))
                            (case n_sort_order_override n of Some ov \<Rightarrow> ov | None \<Rightarrow> dso)) i = Inr ch
              \<and> ch \<in> set (chapters_by_position s (n_id n))
              \<and> delete_chapter dso u slug i s = (Inr True, after_delete s (n_id n) ch))"
proof (cases "query_novel s u slug")
  case None
  then show ?thesis by (simp add: delete_chapter_def get_novel_with_chapters_db_def)
next
  case (Some n)
  let ?xs = "chapters_by_position s (n_id n)"
  let ?order = "case n_sort_order_override n of Some ov \<Rightarrow> ov | None \<Rightarrow> dso"
  let ?view = "sort_chapters_by_number (\<lambda>c. Some (position c)) (map Some ?xs) ?order"
  have unf: "delete_chapter dso u slug i s =
      (if ?xs = [] then (Inr False, s)
       else if i \<ge> int (length ?view) then (Inr False, s)
       else (case py_index ?view i of
               Inl e \<Rightarrow> (Inl e, s)
             | Inr ch \<Rightarrow> db_session_scope (delete_chapter_body u slug (c_id ch)) s))"
    by (simp add: delete_chapter_def get_novel_with_chapters_db_def Some Let_def)
  show ?thesis
  proof (cases "py_index ?view i")
    case (Inl e)
    then show ?thesis unfolding unf by simp
  next
    case (Inr ch)
    then have "ch \<in> set ?view" by (rule py_index_Inr)
    then have mem: "ch \<in> set ?xs"
      by (simp add: sort_chapters_by_number_def Let_def set_py_sorted map_filter_map_Some
          split: if_splits)
    then have "ch \<in> set (chapters s)"
      by (simp add: chapters_by_position_def novel_chapters_def)
    from delete_chapter_body_found [OF pk Some this] Inr mem Some
    show ?thesis unfolding unf by auto
  qed
qed

lemma renumbered_fields:
  "map (\<lambda>c. c\<lparr>position := 0\<rparr>) (renumbered cs) = map (\<lambda>c. c\<lparr>position := 0\<rparr>) cs"
proof (rule nth_equalityI)
  show "length (map (\<lambda>c. c\<lparr>position := 0\<rparr>) (renumbered cs)) = length (map (\<lambda>c. c\<lparr>position := 0\<rparr>) cs)"
    by (simp add: renumbered_def)
next
  fix j assume "j < length (map (\<lambda>c. c\<lparr>position := 0\<rparr>) (renumbered cs))"
  then have "j < length cs" by (simp add: renumbered_def)
  then show "map (\<lambda>c. c\<lparr>position := 0\<rparr>) (renumbered cs) ! j = map (\<lambda>c. c\<lparr>position := 0\<rparr>) cs ! j"
    by (simp add: renumbered_def nth_enumerate_eq)
qed

lemma length_renumbered: "length (renumbered cs) = length cs"
  by (simp add: renumbered_def)

lemma length_chapters_by_position: "length (chapters_by_position s nid) = length (novel_chapters s nid)"
  by (simp add: chapters_by_position_def)

section \<open>Auxiliary lemmas: dense positions\<close>

lemma dense_append:
  assumes d: "distinct ps" and s: "set ps = {0 ..< int N}" and le: "ins \<le> N"
  shows "distinct (map (\<lambda>p. if int ins \<le> p then p + 1 else p) ps @ [int ins])
       \<and> set (map (\<lambda>p. if int ins \<le> p then p + 1 else p) ps @ [int ins]) = {0 ..< int (Suc N)}"
proof
  let ?f = "\<lambda>p. if int ins \<le> p then p + 1 else p"
  have inj: "inj_on ?f (set ps)" by (auto simp: inj_on_def split: if_splits)
  have "int ins \<notin> ?f ` set ps" by (auto split: if_splits)
  with d inj show "distinct (map ?f ps @ [int ins])" by (simp add: distinct_map)
  show "set (map ?f ps @ [int ins]) = {0 ..< int (Suc N)}"
  proof (rule set_eqI)
    fix x
    show "x \<in> set (map ?f ps @ [int ins]) \<longleftrightarrow> x \<in> {0 ..< int (Suc N)}"
    proof
      assume "x \<in> set (map ?f ps @ [int ins])"
      then show "x \<in> {0 ..< int (Suc N)}"
        using s le by (auto split: if_splits)
    next
      assume x: "x \<in> {0 ..< int (Suc N)}"
      consider "x = int ins" | "x < int ins" | "int ins < x" by linarith
      then show "x \<in> set (map ?f ps @ [int ins])"
      proof cases
        case 1
        then show ?thesis by simp
      next
        case 2
        with x le have "x \<in> set ps" using s by auto
        then have "?f x \<in> ?f ` set ps" by (rule imageI)
        moreover have "?f x = x" using 2 by simp
        ultimately have "x \<in> ?f ` set ps" by simp
        then show ?thesis by simp
      next
        case 3
        with x have "x - 1 \<in> set ps" using s by auto
        then have "?f (x - 1) \<in> ?f ` set ps" by (rule imageI)
        moreover have "?f (x - 1) = x" using 3 by simp
        ultimately have "x \<in> ?f ` set ps" by simp
        then show ?thesis by simp
      qed
    qed
  qed
qed

lemma dense_of_sorted:
  assumes "map position (chapters_by_position s nid) = map int [0 ..< length (novel_chapters s nid)]"
  shows "dense_positions s nid"
proof -
  let ?ps = "map position (novel_chapters s nid)"
  let ?qs = "map position (chapters_by_position s nid)"
  have m: "mset ?qs = mset ?ps" by (simp add: chapters_by_position_def)
  have "distinct ?qs" unfolding assms by (simp add: distinct_map inj_on_def)
  then have d: "distinct ?ps" using m by (metis mset_eq_imp_distinct_iff)
  have "set ?qs = {0 ..< int (length (novel_chapters s nid))}"
    unfolding assms by (simp add: image_int_atLeastLessThan del: set_map add: set_map [of int])
  moreover have "set ?qs = set ?ps" using m by (rule mset_eq_setD)
  ultimately show ?thesis using d by (simp add: dense_positions_def)
qed

lemma direct_shift_noop:
  assumes "\<forall>c \<in> set (novel_chapters s nid). position c < int ins"
  shows "direct_shift nid ins s = s"
proof -
  have "map (\<lambda>c. if c_novel_id c = nid \<and> int ins \<le> position c then c\<lparr>position := position c + 1\<rparr> else c) (chapters s)
      = map (\<lambda>c. c) (chapters s)"
    using assms by (intro map_cong) (auto simp: novel_chapters_def)
  then show ?thesis by (simp add: direct_shift_def)
qed

lemma novel_chapters_direct_shift_other:
  "nid' \<noteq> nid \<Longrightarrow> novel_chapters (direct_shift nid ins s) nid' = novel_chapters s nid'"
proof -
  assume ne: "nid' \<noteq> nid"
  have "map (\<lambda>c. c\<lparr>position := if c_novel_id c = nid \<and> int ins \<le> position c then position c + 1 else position c\<rparr>)
          (novel_chapters s nid') = map (\<lambda>c. c) (novel_chapters s nid')"
    using ne by (intro map_cong) (auto simp: novel_chapters_def)
  then show ?thesis
    by (simp add: direct_shift_reposition novel_chapters_reposition)
qed

lemma positions_direct_shift:
  "map position (novel_chapters (direct_shift nid ins s) nid)
     = map (\<lambda>p. if int ins \<le> p then p + 1 else p) (map position (novel_chapters s nid))"
proof -
  have "map position (novel_chapters (direct_shift nid ins s) nid)
      = map (\<lambda>c. if c_novel_id c = nid \<and> int ins \<le> position c then position c + 1 else position c)
          (novel_chapters s nid)"
    by (simp only: direct_shift_reposition positions_reposition)
  also have "\<dots> = map (\<lambda>c. if int ins \<le> position c then position c + 1 else position c)
          (novel_chapters s nid)"
    by (intro map_cong) (auto simp: novel_chapters_def)
  finally show ?thesis by (simp add: comp_def)
qed

lemma dense_bound:
  "dense_positions s nid \<Longrightarrow> c \<in> set (novel_chapters s nid) \<Longrightarrow>
     position c < int (length (novel_chapters s nid))"
proof -
  assume d: "dense_positions s nid" and c: "c \<in> set (novel_chapters s nid)"
  from c have "position c \<in> set (map position (novel_chapters s nid))" by simp
  with d show ?thesis by (simp only: dense_positions_def) simp
qed

lemma assign_position_dense:
  assumes pk: "distinct (map c_id (chapters s))"
    and dense: "dense_positions s nid"
    and adm: "d_position cd = None \<or> d_position cd = Some (int (length (novel_chapters s nid)))"
  shows "assign_position fl nid cd s = Inl DataError
       \<or> (\<exists>ins \<le> length (novel_chapters s nid).
             assign_position fl nid cd s = Inr (int ins, direct_shift nid ins s))"
proof (cases "d_position cd")
  case (Some p)
  with adm have p: "p = int (length (novel_chapters s nid))" by simp
  have "direct_shift nid (length (novel_chapters s nid)) s = s"
    using dense by (intro direct_shift_noop) (auto dest: dense_bound)
  then have "assign_position fl nid cd s
      = Inr (int (length (novel_chapters s nid)), direct_shift nid (length (novel_chapters s nid)) s)"
    using Some p by (simp add: assign_position_def)
  then show ?thesis by blast
next
  case None
  let ?xs = "chapters_by_position s nid"
  let ?ins = "compute_insert_pos fl cd ?xs"
  have len: "length ?xs = length (novel_chapters s nid)" by (rule length_chapters_by_position)
  have le: "?ins \<le> length (novel_chapters s nid)"
    using first_index_where_le [of _ ?xs] len
    by (simp add: compute_insert_pos_spec split: option.splits)
  show ?thesis
  proof (cases "?ins < length ?xs")
    case True
    from shift_chapters_cases [OF pk, of nid ?ins] show ?thesis
    proof
      assume "shift_chapters nid ?ins s = Inl DataError"
      then have "assign_position fl nid cd s = Inl DataError"
        using None True by (simp add: assign_position_def Let_def)
      then show ?thesis by blast
    next
      assume "shift_chapters nid ?ins s = Inr (direct_shift nid ?ins s)"
      then have "assign_position fl nid cd s = Inr (int ?ins, direct_shift nid ?ins s)"
        using None True by (simp add: assign_position_def Let_def)
      with le show ?thesis by blast
    qed
  next
    case False
    with le len have "?ins = length (novel_chapters s nid)" by simp
    moreover have "direct_shift nid (length (novel_chapters s nid)) s = s"
      using dense by (intro direct_shift_noop) (auto dest: dense_bound)
    ultimately have "assign_position fl nid cd s = Inr (int ?ins, direct_shift nid ?ins s)"
      using None False by (simp add: assign_position_def Let_def)
    with le show ?thesis by blast
  qed
qed

lemma add_chapter_atomic_state_cases:
  assumes nov: "query_novel s u slug = Some n"
  shows "(chapters (snd (add_chapter_atomic fl u slug cd s)) = chapters s
          \<and> next_chapter_id s \<le> next_chapter_id (snd (add_chapter_atomic fl u slug cd s)))
       \<or> (\<exists>sl pos s1. assign_position fl (n_id n) cd s = Inr (pos, s1)
             \<and> snd (add_chapter_atomic fl u slug cd s) =
                 s1\<lparr>next_chapter_id := Suc (next_chapter_id s1),
                    chapters := chapters s1 @
                      [\<lparr>c_id = next_chapter_id s1, c_novel_id = n_id n, c_slug = sl,
                        chapter_number = d_chapter_number cd, source_url = d_source_url cd,
                        position = pos\<rparr>]\<rparr>)"
proof (cases "duplicate_check s (n_id n) (d_source_url cd)")
  case (Some e)
  then show ?thesis by (simp add: add_chapter_atomic_found [OF nov])
next
  case None
  show ?thesis
  proof (cases "assign_position fl (n_id n) cd s")
    case (Inl e)
    then show ?thesis by (simp add: add_chapter_atomic_found [OF nov] None)
  next
    case (Inr ps)
    obtain pos s1 where ps: "ps = (pos, s1)" by (cases ps)
    note ap = Inr [unfolded ps]
    from assign_position_frame [OF ap] have nx: "next_chapter_id s1 = next_chapter_id s" by simp
    show ?thesis
    proof (cases "d_slug cd")
      case dn: None
      then show ?thesis by (simp add: add_chapter_atomic_found [OF nov] None ap)
    next
      case (Some sl)
      obtain r s2 where af: "add_and_flush s1 (n_id n) sl cd pos = (r, s2)"
        by (cases "add_and_flush s1 (n_id n) sl cd pos")
      show ?thesis
      proof (cases r)
        case (Inl e)
        with af add_and_flush_Inl [of s1 "n_id n" sl cd pos e s2] nx
        show ?thesis by (simp add: add_chapter_atomic_found [OF nov] None ap Some)
      next
        case (Inr c)
        with af have af': "add_and_flush s1 (n_id n) sl cd pos = (Inr c, s2)" by simp
        have "snd (add_chapter_atomic fl u slug cd s) = s2"
          by (simp add: add_chapter_atomic_found [OF nov] None ap Some af')
        with add_and_flush_Inr [OF af'] ap show ?thesis by blast
      qed
    qed
  qed
qed

lemma insert_preserves:
  assumes pk: "primary_key_ok s" and dense: "\<forall>nid. dense_positions s nid"
    and adm: "position_admissible (Insert u slug cd) s"
  shows "primary_key_ok (snd (add_chapter_atomic fl u slug cd s))
       \<and> (\<forall>nid. dense_positions (snd (add_chapter_atomic fl u slug cd s)) nid)"
proof (cases "query_novel s u slug")
  case None
  then show ?thesis using pk dense by (simp add: add_chapter_atomic_missing)
next
  case (Some n)
  let ?nid = "n_id n"
  let ?N = "length (novel_chapters s ?nid)"
  let ?res = "snd (add_chapter_atomic fl u slug cd s)"
  from pk have pk': "distinct (map c_id (chapters s))" by (simp add: primary_key_ok_def)
  from adm Some have adm': "d_position cd = None \<or> d_position cd = Some (int ?N)"
    by (auto simp: position_admissible_def split: option.splits)
  from add_chapter_atomic_state_cases [OF Some, of fl cd]
  show ?thesis
  proof
    assume same: "chapters ?res = chapters s \<and> next_chapter_id s \<le> next_chapter_id ?res"
    then have "primary_key_ok ?res"
      using pk by (auto simp: primary_key_ok_def)
    moreover have "dense_positions ?res nid" for nid
      using dense [rule_format, of nid] same by (simp add: dense_positions_def novel_chapters_def)
    ultimately show ?thesis by blast
  next
    assume "\<exists>sl pos s1. assign_position fl (n_id n) cd s = Inr (pos, s1)
             \<and> ?res =
                 s1\<lparr>next_chapter_id := Suc (next_chapter_id s1),
                    chapters := chapters s1 @
                      [\<lparr>c_id = next_chapter_id s1, c_novel_id = n_id n, c_slug = sl,
                        chapter_number = d_chapter_number cd, source_url = d_source_url cd,
                        position = pos\<rparr>]\<rparr>"
    then obtain sl :: string and pos :: int and s1 :: db
      where ap: "assign_position fl ?nid cd s = Inr (pos, s1)"
      and res: "?res =
                 s1\<lparr>next_chapter_id := Suc (next_chapter_id s1),
                    chapters := chapters s1 @
                      [\<lparr>c_id = next_chapter_id s1, c_novel_id = ?nid, c_slug = sl,
                        chapter_number = d_chapter_number cd, source_url = d_source_url cd,
                        position = pos\<rparr>]\<rparr>"
      by blast
    from assign_position_dense [OF pk' dense [rule_format, of ?nid] adm', of fl] ap
    obtain ins where ins: "ins \<le> ?N" "pos = int ins" "s1 = direct_shift ?nid ins s"
      by auto
    have s': "?res =
        (direct_shift ?nid ins s)\<lparr>next_chapter_id := Suc (next_chapter_id s),
          chapters := chapters (direct_shift ?nid ins s) @
            [\<lparr>c_id = next_chapter_id s, c_novel_id = ?nid, c_slug = sl,
              chapter_number = d_chapter_number cd, source_url = d_source_url cd,
              position = int ins\<rparr>]\<rparr>"
      (is "_ = ?s'")
      unfolding res ins by (simp add: direct_shift_def)
    have ids: "map c_id (chapters ?s') = map c_id (chapters s) @ [next_chapter_id s]"
      by (simp add: direct_shift_def comp_def if_distrib [of c_id] cong: if_cong)
    have pk1: "primary_key_ok ?s'"
      using pk unfolding primary_key_ok_def ids
      by (auto simp: direct_shift_def less_Suc_eq dest: bspec)
    have dn: "dense_positions ?s' nid" for nid
    proof (cases "nid = ?nid")
      case True
      have nc: "novel_chapters ?s' ?nid = novel_chapters (direct_shift ?nid ins s) ?nid @
            [\<lparr>c_id = next_chapter_id s, c_novel_id = ?nid, c_slug = sl,
              chapter_number = d_chapter_number cd, source_url = d_source_url cd,
              position = int ins\<rparr>]"
        by (simp add: novel_chapters_def)
      have len: "length (novel_chapters ?s' ?nid) = Suc ?N"
        unfolding nc using arg_cong [OF positions_direct_shift [of ?nid ins s], of length]
        by simp
      have pos: "map position (novel_chapters ?s' ?nid)
          = map (\<lambda>p. if int ins \<le> p then p + 1 else p) (map position (novel_chapters s ?nid)) @ [int ins]"
        unfolding nc by (simp only: map_append positions_direct_shift) simp
      from dense [rule_format, of ?nid]
      have "distinct (map position (novel_chapters s ?nid))"
        "set (map position (novel_chapters s ?nid)) = {0 ..< int ?N}"
        by (simp_all only: dense_positions_def)
      from dense_append [OF this ins(1)] show ?thesis
        unfolding True dense_positions_def pos len by simp
    next
      case False
      have "novel_chapters ?s' nid = novel_chapters (direct_shift ?nid ins s) nid"
        using False by (simp add: novel_chapters_def)
      also have "\<dots> = novel_chapters s nid"
        using False by (rule novel_chapters_direct_shift_other)
      finally show ?thesis using dense [rule_format, of nid] by (simp add: dense_positions_def)
    qed
    from pk1 dn show ?thesis unfolding s' by blast
  qed
qed

lemma delete_preserves:
  assumes pk: "primary_key_ok s" and dense: "\<forall>nid. dense_positions s nid"
  shows "primary_key_ok (snd (delete_chapter dso u slug i s))
       \<and> (\<forall>nid. dense_positions (snd (delete_chapter dso u slug i s)) nid)"
proof -
  from pk have pk': "distinct (map c_id (chapters s))" by (simp add: primary_key_ok_def)
  from delete_chapter_cases [OF pk', of dso u slug i]
  show ?thesis
  proof
    assume "snd (delete_chapter dso u slug i s) = s \<and> fst (delete_chapter dso u slug i s) \<noteq> Inr True"
    then show ?thesis using pk dense by simp
  next
    assume "\<exists>n ch. query_novel s u slug = Some n
              \<and> py_index (sort_chapters_by_number (\<lambda>c. Some (position c))
                            (map Some (chapters_by_position s (n_id n)))
                            (case n_sort_order_override n of Some ov \<Rightarrow> ov | None \<Rightarrow> dso)) i = Inr ch
              \<and> ch \<in> set (chapters_by_position s (n_id n))
              \<and> delete_chapter dso u slug i s = (Inr True, after_delete s (n_id n) ch)"
    then obtain n :: novel and ch :: chapter_row
      where mem: "ch \<in> set (chapters_by_position s (n_id n))"
      and run: "delete_chapter dso u slug i s = (Inr True, after_delete s (n_id n) ch)"
      by blast
    from run have s': "snd (delete_chapter dso u slug i s) = after_delete s (n_id n) ch"
      by simp
    let ?nid = "n_id n"
    let ?s' = "after_delete s ?nid ch"
    have ch: "c_novel_id ch = ?nid"
      using mem by (simp add: chapters_by_position_def novel_chapters_def)
    have "distinct (map c_id (chapters ?s'))"
      unfolding after_delete_ids using pk' by (rule distinct_map_remove1)
    moreover have "\<forall>c \<in> set (chapters ?s'). c_id c < next_chapter_id ?s'"
    proof
      fix c assume "c \<in> set (chapters ?s')"
      then have "c_id c \<in> set (map c_id (chapters ?s'))" by simp
      then have "c_id c \<in> set (map c_id (remove1 ch (chapters s)))"
        by (simp only: after_delete_ids)
      then have "c_id c \<in> set (map c_id (chapters s))"
        using set_remove1_subset [of ch "chapters s"] by auto
      then show "c_id c < next_chapter_id ?s'"
        using pk after_delete_frame [of s ?nid ch] by (auto simp: primary_key_ok_def)
    qed
    ultimately have pk1: "primary_key_ok ?s'" by (simp add: primary_key_ok_def)
    have dn: "dense_positions ?s' nid" for nid
    proof (cases "nid = ?nid")
      case True
      have "map position (chapters_by_position ?s' ?nid)
          = map int [0 ..< length (chapters_by_position ?s' ?nid)]"
        by (simp only: after_delete_same_novel [OF pk'] positions_renumbered length_renumbered)
      then show ?thesis
        unfolding True by (intro dense_of_sorted) (simp only: length_chapters_by_position)
    next
      case False
      then have "novel_chapters ?s' nid = novel_chapters s nid"
        using after_delete_other_novel [OF pk' ch] by blast
      then show ?thesis using dense [rule_format, of nid] by (simp add: dense_positions_def)
    qed
    from pk1 dn show ?thesis unfolding s' by blast
  qed
qed

lemma operation_preserves:
  assumes "primary_key_ok s" "\<forall>nid. dense_positions s nid" "position_admissible opn s"
  shows "primary_key_ok (apply_operation fl opn s)
       \<and> (\<forall>nid. dense_positions (apply_operation fl opn s) nid)"
proof (cases opn)
  case (Insert u slug cd)
  with assms show ?thesis by (simp add: insert_preserves)
next
  case (Delete dso u slug i)
  with assms show ?thesis by (simp add: delete_preserves)
qed

lemma run_preserves:
  assumes "primary_key_ok s" "\<forall>nid. dense_positions s nid" "admissible fl ops s"
  shows "primary_key_ok (run_operations fl (take k ops) s)
       \<and> (\<forall>nid. dense_positions (run_operations fl (take k ops) s) nid)"
  using assms
proof (induction ops arbitrary: s k)
  case Nil
  then show ?case by (simp add: run_operations_def)
next
  case (Cons opn ops)
  show ?case
  proof (cases k)
    case 0
    with Cons.prems show ?thesis by (simp add: run_operations_def)
  next
    case (Suc k')
    from Cons.prems have adm: "position_admissible opn s" "admissible fl ops (apply_operation fl opn s)"
      by simp_all
    from operation_preserves [OF Cons.prems(1,2) adm(1), of fl]
    have "primary_key_ok (apply_operation fl opn s)"
      "\<forall>nid. dense_positions (apply_operation fl opn s) nid"
      by simp_all
    from Cons.IH [OF this adm(2), of k'] Suc show ?thesis
      by (simp add: run_operations_def)
  qed
qed

section \<open>The two-pass renumbering\<close>

text \<open>
  C3, as the code has it. In a table whose primary keys are distinct, for a novel whose
  chapters hold pairwise distinct non-negative positions, those at or after \<open>i\<close> being at
  most 2147482648 (so that every temporary value \<open>-(p + 1000)\<close> fits the 32-bit position
  column), the two passes of the shift at index \<open>i\<close> (first to \<open>-(p + 1000)\<close>, then to \<open>(|temp| - 1000) + 1\<close>), with
  their flushes, succeed and end in the state that moving every chapter at position
  \<open>p \<ge> i\<close> directly to \<open>p + 1\<close> gives, and in every state after an assignment of either
  pass the chapters of the novel hold pairwise distinct positions.
\<close>

theorem two_pass_shift_refines_direct_shift:
  assumes "distinct (map c_id (chapters s))"
    and "distinct (map position (novel_chapters s nid))"
    and "\<forall>c \<in> set (novel_chapters s nid).
           0 \<le> position c \<and> (int i \<le> position c \<longrightarrow> position c \<le> max_shiftable)"
  shows "shift_chapters nid i s = Inr (direct_shift nid i s)
       \<and> (\<forall>s' \<in> set (shift_trace nid i s). distinct (map position (novel_chapters s' nid)))
       \<and> (chapters_to_shift s nid i \<noteq> [] \<longrightarrow> last (shift_trace nid i s) = direct_shift nid i s)"
proof (intro conjI ballI impI)
  from assms(3) have hi: "\<forall>c \<in> set (novel_chapters s nid). int i \<le> position c \<longrightarrow> position c \<le> max_shiftable"
    and nn: "\<forall>c \<in> set (novel_chapters s nid). 0 \<le> position c"
    by simp_all
  show "shift_chapters nid i s = Inr (direct_shift nid i s)"
    using assms(1) hi by (rule shift_chapters_ok)
  show "distinct (map position (novel_chapters s' nid))" if "s' \<in> set (shift_trace nid i s)" for s'
    using assms(1,2) nn that by (rule shift_trace_no_clash)
  show "last (shift_trace nid i s) = direct_shift nid i s" if ne: "chapters_to_shift s nid i \<noteq> []"
  proof -
    let ?cids = "chapters_to_shift s nid i"
    have bp: "second_pass ?cids (first_pass ?cids s) = direct_shift nid i s"
      using both_passes_direct [OF assms(1), of nid i] by (simp add: both_passes_def Let_def)
    have "assign_trace from_temp ?cids (first_pass ?cids s) \<noteq> []"
      using ne by (cases ?cids) simp_all
    then show ?thesis
      using ne bp
      by (simp add: shift_trace_def Let_def flush_first_pass [OF assms(1) hi] second_pass_def
          assign_trace_last)
  qed
qed

theorem two_pass_shift_refines_direct_shift_witness:
  "shift_chapters 1 1 example_db = Inr (direct_shift 1 1 example_db)
   \<and> list_all (\<lambda>s'. distinct (map position (novel_chapters s' 1))) (shift_trace 1 1 example_db)
   \<and> last (shift_trace 1 1 example_db) = direct_shift 1 1 example_db
   \<and> map position (chapters (direct_shift 1 1 example_db)) = [0, 2, 3]
   \<and> map (\<lambda>s'. map position (chapters s')) (shift_trace 1 1 example_db)
       = [[0, 1, -1002], [0, -1001, -1002], [0, -1001, 3], [0, 2, 3]]"
proof -
  have h1: "distinct (map c_id (chapters example_db))"
    by (simp add: example_db_def)
  have h2: "distinct (map position (novel_chapters example_db 1))"
    by (simp add: example_db_def novel_chapters_def)
  have h3: "\<forall>c \<in> set (novel_chapters example_db 1).
      0 \<le> position c \<and> (int 1 \<le> position c \<longrightarrow> position c \<le> max_shiftable)"
    by (simp add: example_db_def novel_chapters_def max_shiftable_def)
  have ne: "chapters_to_shift example_db 1 1 \<noteq> []"
    by (simp add: example_db_def chapters_to_shift_def)
  have ev: "map position (chapters (direct_shift 1 1 example_db)) = [0, 2, 3]"
    by code_simp
  have tr: "map (\<lambda>s'. map position (chapters s')) (shift_trace 1 1 example_db)
       = [[0, 1, -1002], [0, -1001, -1002], [0, -1001, 3], [0, 2, 3]]"
    by code_simp
  from two_pass_shift_refines_direct_shift [OF h1 h2 h3] ne ev tr show ?thesis
    unfolding list_all_iff by blast
qed

text \<open>
  C3 as stated fails for a stored position above 2147482648: the chapter at position
  2147483000 has distinct primary key and a non-negative position that the column holds, the
  direct shift would store 2147483001, but the first pass assigns -2147484000, the flush
  after it is refused, and the importing call is rolled back with the error.
\<close>

theorem two_pass_shift_counterexample:
  "distinct (map c_id (chapters example_db_far))
   \<and> map position (novel_chapters example_db_far 1) = [2147483000]
   \<and> int32_ok 2147483000
   \<and> map position (chapters (direct_shift 1 0 example_db_far)) = [2147483001]
   \<and> int32_ok 2147483001
   \<and> map (\<lambda>s'. map position (chapters s')) (shift_trace 1 0 example_db_far) = [[-2147484000]]
   \<and> shift_chapters 1 0 example_db_far = Inl DataError
   \<and> add_chapter_atomic example_float_of ''u'' ''n''
        \<lparr>d_slug = Some ''b'', d_source_url = Some ''https://novelpia.com/viewer/100'',
         d_position = None, d_chapter_number = Some ''1'',
         d_title = Key_missing, d_content = Key_missing, d_original_title = None,
         d_translated_title = None\<rparr> example_db_far
      = (Inl DataError, example_db_far)"
  by code_simp

section \<open>Insertion index from the ordering key\<close>

text \<open>
  C2. When \<^verbatim>\<open>add_chapter_atomic\<close> inserts a chapter that comes without an explicit
  position and whose source URL yields the ordering key \<open>k\<close>, the index it returns is the
  index, in the novel's chapters taken in ascending position order, of the first chapter
  whose own source URL yields a key strictly greater than \<open>k\<close> (chapters without a key never
  qualify); no chapter before that index qualifies; when no chapter qualifies the index is the
  number of chapters, and for a novel without chapters it is 0. The new row is stored at that
  position.
\<close>

theorem insertion_index_by_episode_id:
  assumes ok: "add_chapter_atomic float_of user_id novel_slug cd s = (Inr r, s')"
    and new: "already_exists r \<noteq> Some True"
    and np: "d_position cd = None"
    and key: "extract_episode_id_from_url (d_source_url cd) = Some k"
    and nov: "query_novel s user_id novel_slug = Some n"
  shows "chapter_index r = int (first_index_where (key_greater k) (chapters_by_position s (n_id n)))
       \<and> (\<exists>i. chapter_index r = int i
              \<and> i \<le> length (chapters_by_position s (n_id n))
              \<and> (\<forall>j < i. \<not> key_greater k (chapters_by_position s (n_id n) ! j))
              \<and> (i < length (chapters_by_position s (n_id n))
                    \<longrightarrow> key_greater k (chapters_by_position s (n_id n) ! i)))
       \<and> (chapters_by_position s (n_id n) = [] \<longrightarrow> chapter_index r = 0)
       \<and> (\<exists>c \<in> set (chapters s'). c_id c = chapter_id r \<and> c_novel_id c = n_id n
              \<and> position c = chapter_index r \<and> source_url c = d_source_url cd)"
proof -
  let ?xs = "chapters_by_position s (n_id n)"
  let ?i = "first_index_where (key_greater k) ?xs"
  from ok new nov obtain sl c pos s1 where
    ap: "assign_position float_of (n_id n) cd s = Inr (pos, s1)"
    and fl: "add_and_flush s1 (n_id n) sl cd pos = (Inr c, s')"
    and r: "r = inserted_result n c"
    by (rule add_chapter_atomic_inserted)
  have pos: "pos = int ?i"
    using assign_position_index [OF np ap] key by (simp add: compute_insert_pos_spec)
  from add_and_flush_Inr [OF fl] pos
  have c: "position c = int ?i" "c_novel_id c = n_id n" "source_url c = d_source_url cd" "c \<in> set (chapters s')"
    by auto
  have idx: "chapter_index r = int ?i" "chapter_id r = c_id c"
    using r c by (simp_all add: inserted_result_def)
  have char: "?i \<le> length ?xs \<and> (\<forall>j < ?i. \<not> key_greater k (?xs ! j))
      \<and> (?i < length ?xs \<longrightarrow> key_greater k (?xs ! ?i))"
    using first_index_where_le [of "key_greater k" ?xs] first_index_where_before [of _ "key_greater k" ?xs]
      first_index_where_at [of "key_greater k" ?xs] by blast
  show ?thesis
  proof (intro conjI)
    show "chapter_index r = int ?i" by (rule idx)
    show "\<exists>i. chapter_index r = int i \<and> i \<le> length ?xs \<and> (\<forall>j < i. \<not> key_greater k (?xs ! j))
        \<and> (i < length ?xs \<longrightarrow> key_greater k (?xs ! i))"
      using idx(1) char by blast
    show "?xs = [] \<longrightarrow> chapter_index r = 0"
      using idx(1) by auto
    show "\<exists>c \<in> set (chapters s'). c_id c = chapter_id r \<and> c_novel_id c = n_id n
              \<and> position c = chapter_index r \<and> source_url c = d_source_url cd"
      using c idx by auto
  qed
qed

theorem insertion_index_by_episode_id_witness:
  "add_chapter_atomic example_float_of ''u'' ''n''
      \<lparr>d_slug = Some ''d'', d_source_url = Some ''https://novelpia.com/viewer/400'',
       d_position = None, d_chapter_number = Some ''2.5'',
       d_title = Key_missing, d_content = Key_missing, d_original_title = None,
       d_translated_title = None\<rparr> example_db
    = (Inr \<lparr>success = True, message = ''Chapter imported successfully'', already_exists = None,
            r_novel_id = ''n'', chapter_index = 2, chapter_id = 4\<rparr>,
       \<lparr>novels = novels example_db,
        chapters =
          [\<lparr>c_id = 1, c_novel_id = 1, c_slug = ''a'', chapter_number = Some ''1'',
             source_url = Some ''https://novelpia.com/viewer/100'', position = 0\<rparr>,
           \<lparr>c_id = 2, c_novel_id = 1, c_slug = ''b'', chapter_number = Some ''2'',
             source_url = Some ''https://novelpia.com/viewer/300'', position = 1\<rparr>,
           \<lparr>c_id = 3, c_novel_id = 1, c_slug = ''c'', chapter_number = Some ''3'',
             source_url = Some ''https://novelpia.com/viewer/500'', position = 3\<rparr>,
           \<lparr>c_id = 4, c_novel_id = 1, c_slug = ''d'', chapter_number = Some ''2.5'',
             source_url = Some ''https://novelpia.com/viewer/400'', position = 2\<rparr>],
        next_chapter_id = 5, row_locks = []\<rparr>)
   \<and> map (\<lambda>c. extract_episode_id_from_url (source_url c)) (chapters_by_position example_db 1)
       = [Some 100, Some 300, Some 500]
   \<and> map position (chapters_by_position example_db 1) = [0, 1, 2]
   \<and> first_index_where (key_greater 400) (chapters_by_position example_db 1) = 2
   \<and> map (\<lambda>c. extract_episode_id_from_url (source_url c))
        (chapters_by_position
          (snd (add_chapter_atomic example_float_of ''u'' ''n''
              \<lparr>d_slug = Some ''d'', d_source_url = Some ''https://novelpia.com/viewer/400'',
               d_position = None, d_chapter_number = Some ''2.5'',
       d_title = Key_missing, d_content = Key_missing, d_original_title = None,
       d_translated_title = None\<rparr> example_db)) 1)
       = [Some 100, Some 300, Some 400, Some 500]"
  (is "?run = (Inr ?r, ?s') \<and> ?keys \<and> ?poss \<and> ?idx \<and> ?after")
proof -
  have run: "?run = (Inr ?r, ?s')" by code_simp
  have new: "already_exists ?r \<noteq> Some True" by simp
  have np: "d_position \<lparr>d_slug = Some ''d'', d_source_url = Some ''https://novelpia.com/viewer/400'',
       d_position = None, d_chapter_number = Some ''2.5'',
       d_title = Key_missing, d_content = Key_missing, d_original_title = None,
       d_translated_title = None\<rparr> = None" by simp
  have key: "extract_episode_id_from_url (d_source_url \<lparr>d_slug = Some ''d'', d_source_url = Some ''https://novelpia.com/viewer/400'',
       d_position = None, d_chapter_number = Some ''2.5'',
       d_title = Key_missing, d_content = Key_missing, d_original_title = None,
       d_translated_title = None\<rparr>) = Some 400" by code_simp
  have nov: "query_novel example_db ''u'' ''n'' = Some \<lparr>n_id = 1, n_user_id = ''u'', n_slug = ''n'', n_sort_order_override = None\<rparr>"
    by code_simp
  have keys: ?keys by code_simp
  have poss: ?poss by code_simp
  have after: ?after by code_simp
  from insertion_index_by_episode_id [OF run new np key nov]
  have "2 = int (first_index_where (key_greater 400) (chapters_by_position example_db 1))"
    by simp
  then have idx: ?idx by simp
  from run keys poss idx after show ?thesis by blast
qed

section \<open>Insertion index from the chapter number\<close>

text \<open>
  C7. When \<^verbatim>\<open>add_chapter_atomic\<close> inserts a chapter that comes without an explicit
  position and whose source URL yields no ordering key, the index it returns is the index, in
  the novel's chapters taken in ascending position order, of the first chapter whose parsed
  chapter number is strictly greater than the new chapter's parsed number, and the number of
  chapters when there is none; a missing, \<^verbatim>\<open>BONUS\<close> or unparsable chapter number parses
  to 999999.0; so a \<^verbatim>\<open>BONUS\<close> chapter is appended at the end whenever every existing
  chapter has a numeric chapter number below 999999.
\<close>

theorem insertion_index_by_chapter_number:
  assumes ok: "add_chapter_atomic float_of user_id novel_slug cd s = (Inr r, s')"
    and new: "already_exists r \<noteq> Some True"
    and np: "d_position cd = None"
    and key: "extract_episode_id_from_url (d_source_url cd) = None"
    and nov: "query_novel s user_id novel_slug = Some n"
  shows "chapter_index r =
           int (first_index_where
                 (number_greater float_of (parse_chapter_number float_of (d_chapter_number cd)))
                 (chapters_by_position s (n_id n)))
       \<and> (\<forall>ns. ns = None \<or> ns = Some ''BONUS'' \<or> (\<exists>t. ns = Some t \<and> float_of t = None)
              \<longrightarrow> parse_chapter_number float_of ns = Finite 999999)
       \<and> (d_chapter_number cd = Some ''BONUS''
            \<and> (\<forall>ch \<in> set (chapters_by_position s (n_id n)).
                  \<exists>x. parse_chapter_number float_of (chapter_number ch) = Finite x \<and> x < 999999)
            \<longrightarrow> chapter_index r = int (length (chapters_by_position s (n_id n))))
       \<and> (\<exists>c \<in> set (chapters s'). c_id c = chapter_id r \<and> c_novel_id c = n_id n
              \<and> position c = chapter_index r)"
proof -
  let ?xs = "chapters_by_position s (n_id n)"
  let ?P = "number_greater float_of (parse_chapter_number float_of (d_chapter_number cd))"
  from ok new nov obtain sl c pos s1 where
    ap: "assign_position float_of (n_id n) cd s = Inr (pos, s1)"
    and fl: "add_and_flush s1 (n_id n) sl cd pos = (Inr c, s')"
    and r: "r = inserted_result n c"
    by (rule add_chapter_atomic_inserted)
  have pos: "pos = int (first_index_where ?P ?xs)"
    using assign_position_index [OF np ap] key by (simp add: compute_insert_pos_spec)
  from add_and_flush_Inr [OF fl] pos
  have c: "position c = int (first_index_where ?P ?xs)" "c_novel_id c = n_id n" "c \<in> set (chapters s')"
    by auto
  have idx: "chapter_index r = int (first_index_where ?P ?xs)" "chapter_id r = c_id c"
    using r c by (simp_all add: inserted_result_def)
  have bonus: "chapter_index r = int (length ?xs)"
    if b: "d_chapter_number cd = Some ''BONUS''"
      and below: "\<forall>ch \<in> set ?xs. \<exists>x. parse_chapter_number float_of (chapter_number ch) = Finite x \<and> x < 999999"
  proof -
    have v: "parse_chapter_number float_of (d_chapter_number cd) = Finite 999999"
      using b by (simp add: parse_chapter_number_sentinel)
    have "\<forall>ch \<in> set ?xs. \<not> ?P ch"
    proof
      fix ch assume "ch \<in> set ?xs"
      with below obtain x where "parse_chapter_number float_of (chapter_number ch) = Finite x" "x < 999999"
        by blast
      then show "\<not> ?P ch" by (simp add: number_greater_def v)
    qed
    then have "first_index_where ?P ?xs = length ?xs" by (rule first_index_where_none)
    with idx show ?thesis by simp
  qed
  show ?thesis
  proof (intro conjI allI impI)
    show "chapter_index r = int (first_index_where ?P ?xs)" by (rule idx)
    show "parse_chapter_number float_of ns = Finite 999999"
      if "ns = None \<or> ns = Some ''BONUS'' \<or> (\<exists>t. ns = Some t \<and> float_of t = None)" for ns
      using that by (auto simp: parse_chapter_number_sentinel)
    show "chapter_index r = int (length ?xs)"
      if "d_chapter_number cd = Some ''BONUS''
            \<and> (\<forall>ch \<in> set ?xs. \<exists>x. parse_chapter_number float_of (chapter_number ch) = Finite x \<and> x < 999999)"
      using that bonus by blast
    show "\<exists>c \<in> set (chapters s'). c_id c = chapter_id r \<and> c_novel_id c = n_id n
              \<and> position c = chapter_index r"
      using c idx by auto
  qed
qed

theorem insertion_index_by_chapter_number_witness:
  "add_chapter_atomic example_float_of ''u'' ''n''
      \<lparr>d_slug = Some ''x'', d_source_url = Some ''https://novelpia.com/notice'',
       d_position = None, d_chapter_number = Some ''BONUS'',
       d_title = Key_missing, d_content = Key_missing, d_original_title = None,
       d_translated_title = None\<rparr> example_db
    = (Inr \<lparr>success = True, message = ''Chapter imported successfully'', already_exists = None,
            r_novel_id = ''n'', chapter_index = 3, chapter_id = 4\<rparr>,
       example_db\<lparr>chapters := chapters example_db @
          [\<lparr>c_id = 4, c_novel_id = 1, c_slug = ''x'', chapter_number = Some ''BONUS'',
             source_url = Some ''https://novelpia.com/notice'', position = 3\<rparr>],
          next_chapter_id := 5\<rparr>)
   \<and> list_all (\<lambda>ch. \<exists>x. parse_chapter_number example_float_of (chapter_number ch) = Finite x
                        \<and> x < 999999) (chapters_by_position example_db 1)
   \<and> first_index_where
        (number_greater example_float_of (parse_chapter_number example_float_of (Some ''BONUS'')))
        (chapters_by_position example_db 1) = 3
   \<and> length (chapters_by_position example_db 1) = 3
   \<and> parse_chapter_number example_float_of (Some ''side story'') = Finite 999999"
  (is "?run = (Inr ?r, ?s') \<and> ?below \<and> ?idx \<and> ?len \<and> ?unp")
proof -
  let ?cd = "\<lparr>d_slug = Some ''x'', d_source_url = Some ''https://novelpia.com/notice'',
       d_position = None, d_chapter_number = Some ''BONUS'',
       d_title = Key_missing, d_content = Key_missing, d_original_title = None,
       d_translated_title = None\<rparr>"
  have run: "?run = (Inr ?r, ?s')" by code_simp
  have new: "already_exists ?r \<noteq> Some True" by simp
  have np: "d_position ?cd = None" by simp
  have key: "extract_episode_id_from_url (d_source_url ?cd) = None" by code_simp
  have nov: "query_novel example_db ''u'' ''n'' = Some \<lparr>n_id = 1, n_user_id = ''u'', n_slug = ''n'', n_sort_order_override = None\<rparr>"
    by code_simp
  have xs: "chapters_by_position example_db 1 = chapters example_db" by code_simp
  have below: ?below
    unfolding xs by (simp add: example_db_def parse_chapter_number_def example_float_of_def)
  then have below': "\<forall>ch \<in> set (chapters_by_position example_db 1).
         \<exists>x. parse_chapter_number example_float_of (chapter_number ch) = Finite x \<and> x < 999999"
    by (simp only: list_all_iff)
  note th = insertion_index_by_chapter_number [OF run new np key nov]
  from th [THEN conjunct2, THEN conjunct2, THEN conjunct1] below'
  have "chapter_index ?r = int (length (chapters_by_position example_db 1))" by simp
  then have len: ?len by simp
  from th [THEN conjunct1] have "3 = int (first_index_where
        (number_greater example_float_of (parse_chapter_number example_float_of (Some ''BONUS'')))
        (chapters_by_position example_db 1))"
    by simp
  then have idx: ?idx by simp
  from th [THEN conjunct2, THEN conjunct1, rule_format, of "Some ''side story''"]
  have unp: ?unp by (simp add: example_float_of_def)
  from run below idx len unp show ?thesis by blast
qed

section \<open>Idempotent re-import\<close>

text \<open>
  C4. After a call of \<^verbatim>\<open>add_chapter_atomic\<close> that returned for chapter data with a
  non-empty source URL, a second call for the same novel with chapter data carrying the same
  source URL returns success with \<^verbatim>\<open>already_exists = True\<close> and the position and id of
  a stored chapter of the novel with that source URL, and leaves the database as it was: no
  chapter is added and no position changes.
\<close>

theorem reimport_is_skipped:
  assumes first: "add_chapter_atomic float_of user_id novel_slug cd s = (Inr r1, s1)"
    and url: "d_source_url cd = Some url" "url \<noteq> []"
    and same: "d_source_url cd2 = Some url"
  shows "\<exists>r2 n. add_chapter_atomic float_of user_id novel_slug cd2 s1 = (Inr r2, s1)
            \<and> success r2 \<and> already_exists r2 = Some True
            \<and> query_novel s user_id novel_slug = Some n
            \<and> (\<exists>c \<in> set (novel_chapters s1 (n_id n)). source_url c = Some url
                  \<and> chapter_index r2 = position c \<and> chapter_id r2 = c_id c)"
proof -
  from first obtain n where nov: "query_novel s user_id novel_slug = Some n"
    using add_chapter_atomic_Inr_found by blast
  have "novels s1 = novels s" using first by (rule add_chapter_atomic_novels)
  then have nov1: "query_novel s1 user_id novel_slug = Some n"
    using nov by (simp add: query_novel_def)
  have "\<exists>c \<in> set (chapters s1). c_novel_id c = n_id n \<and> source_url c = Some url"
  proof -
    from add_chapter_atomic_result_cases [OF first nov]
    show ?thesis
    proof
      assume "\<exists>e. duplicate_check s (n_id n) (d_source_url cd) = Some e \<and> r1 = skipped_result n e \<and> s1 = s"
      then show ?thesis using duplicate_check_Some url(1) by fastforce
    next
      assume a: "already_exists r1 = None \<and> duplicate_check s (n_id n) (d_source_url cd) = None"
      then have ne: "already_exists r1 \<noteq> Some True" by simp
      from first ne nov obtain sl c pos s0 where
        fl: "add_and_flush s0 (n_id n) sl cd pos = (Inr c, s1)"
        by (rule add_chapter_atomic_inserted)
      from add_and_flush_Inr [OF fl] url(1)
      have "c \<in> set (chapters s1)" "c_novel_id c = n_id n" "source_url c = Some url" by auto
      then show ?thesis by blast
    qed
  qed
  then obtain e where e: "duplicate_check s1 (n_id n) (Some url) = Some e"
    using duplicate_check_exists url(2) by blast
  have run2: "add_chapter_atomic float_of user_id novel_slug cd2 s1 = (Inr (skipped_result n e), s1)"
    unfolding add_chapter_atomic_found [OF nov1] using e same by simp
  from duplicate_check_Some [OF e]
  have "e \<in> set (novel_chapters s1 (n_id n))" "source_url e = Some url"
    by (simp_all add: novel_chapters_def)
  with run2 nov show ?thesis
    by (auto simp: skipped_result_def)
qed

theorem reimport_is_skipped_witness:
  "add_chapter_atomic example_float_of ''u'' ''n''
      \<lparr>d_slug = Some ''d'', d_source_url = Some ''https://novelpia.com/viewer/400'',
       d_position = None, d_chapter_number = Some ''2.5'',
       d_title = Key_missing, d_content = Key_missing, d_original_title = None,
       d_translated_title = None\<rparr> example_db
    = (Inr \<lparr>success = True, message = ''Chapter imported successfully'', already_exists = None,
            r_novel_id = ''n'', chapter_index = 2, chapter_id = 4\<rparr>, example_db_400)
   \<and> add_chapter_atomic example_float_of ''u'' ''n''
      \<lparr>d_slug = Some ''e'', d_source_url = Some ''https://novelpia.com/viewer/400'',
       d_position = None, d_chapter_number = Some ''7'',
       d_title = Key_missing, d_content = Key_missing, d_original_title = None,
       d_translated_title = None\<rparr> example_db_400
    = (Inr \<lparr>success = True, message = ''Chapter already exists - skipped'',
            already_exists = Some True, r_novel_id = ''n'', chapter_index = 2, chapter_id = 4\<rparr>,
       example_db_400)
   \<and> (\<exists>r2. fst (add_chapter_atomic example_float_of ''u'' ''n''
      \<lparr>d_slug = Some ''e'', d_source_url = Some ''https://novelpia.com/viewer/400'',
       d_position = None, d_chapter_number = Some ''7'',
       d_title = Key_missing, d_content = Key_missing, d_original_title = None,
       d_translated_title = None\<rparr> example_db_400) = Inr r2
        \<and> already_exists r2 = Some True)"
  (is "?first \<and> ?second \<and> ?ex")
proof -
  have first: ?first by code_simp
  have second: ?second by code_simp
  have u1: "d_source_url \<lparr>d_slug = Some ''d'', d_source_url = Some ''https://novelpia.com/viewer/400'',
       d_position = None, d_chapter_number = Some ''2.5'',
       d_title = Key_missing, d_content = Key_missing, d_original_title = None,
       d_translated_title = None\<rparr> = Some ''https://novelpia.com/viewer/400''"
    by simp
  have u2: "''https://novelpia.com/viewer/400'' \<noteq> []" by simp
  have u3: "d_source_url \<lparr>d_slug = Some ''e'', d_source_url = Some ''https://novelpia.com/viewer/400'',
       d_position = None, d_chapter_number = Some ''7'',
       d_title = Key_missing, d_content = Key_missing, d_original_title = None,
       d_translated_title = None\<rparr> = Some ''https://novelpia.com/viewer/400''"
    by simp
  from reimport_is_skipped [OF first u1 u2 u3] have ex: ?ex by force
  from first second ex show ?thesis by blast
qed

section \<open>Chapters without a source URL\<close>

text \<open>
  C10, as the code has it. For chapter data whose source URL is missing, \<^verbatim>\<open>None\<close> or
  empty, the duplicate check is skipped: a call that returns never reports
  \<^verbatim>\<open>already_exists = True\<close> and has added exactly one chapter row, the new one, also
  when other chapters without a source URL are stored under the novel.
\<close>

theorem sourceless_insert_never_skipped:
  assumes nourl: "d_source_url cd = None \<or> d_source_url cd = Some []"
  shows "\<forall>r s'. add_chapter_atomic float_of user_id novel_slug cd s = (Inr r, s') \<longrightarrow>
            already_exists r \<noteq> Some True
            \<and> length (chapters s') = Suc (length (chapters s))
            \<and> c_id (last (chapters s')) = chapter_id r
            \<and> chapter_id r = next_chapter_id s
            \<and> position (last (chapters s')) = chapter_index r
            \<and> source_url (last (chapters s')) = d_source_url cd"
proof (intro allI impI)
  fix r s' assume ok: "add_chapter_atomic float_of user_id novel_slug cd s = (Inr r, s')"
  then obtain n where nov: "query_novel s user_id novel_slug = Some n"
    using add_chapter_atomic_Inr_found by blast
  have dc: "duplicate_check s (n_id n) (d_source_url cd) = None"
    using nourl by (rule duplicate_check_skipped)
  from add_chapter_atomic_result_cases [OF ok nov] dc
  have new: "already_exists r \<noteq> Some True" by auto
  from ok new nov obtain sl c pos s1 where
    ap: "assign_position float_of (n_id n) cd s = Inr (pos, s1)"
    and fl: "add_and_flush s1 (n_id n) sl cd pos = (Inr c, s')"
    and r: "r = inserted_result n c"
    by (rule add_chapter_atomic_inserted)
  from add_and_flush_Inr [OF fl]
  have c: "c_id c = next_chapter_id s1" "source_url c = d_source_url cd"
      "chapters s' = chapters s1 @ [c]"
    by auto
  show "already_exists r \<noteq> Some True
            \<and> length (chapters s') = Suc (length (chapters s))
            \<and> c_id (last (chapters s')) = chapter_id r
            \<and> chapter_id r = next_chapter_id s
            \<and> position (last (chapters s')) = chapter_index r
            \<and> source_url (last (chapters s')) = d_source_url cd"
    using new c r assign_position_frame [OF ap] assign_position_length [OF ap]
    by (simp add: inserted_result_def)
qed

theorem sourceless_insert_never_skipped_witness:
  "add_chapter_atomic example_float_of ''u'' ''n''
      \<lparr>d_slug = Some ''b'', d_source_url = None, d_position = None, d_chapter_number = Some ''1'',
       d_title = Key_missing, d_content = Key_missing, d_original_title = None,
       d_translated_title = None\<rparr>
      example_db_sourceless
    = (Inr \<lparr>success = True, message = ''Chapter imported successfully'', already_exists = None,
            r_novel_id = ''n'', chapter_index = 1, chapter_id = 2\<rparr>,
       example_db_sourceless\<lparr>chapters := chapters example_db_sourceless @
          [\<lparr>c_id = 2, c_novel_id = 1, c_slug = ''b'', chapter_number = Some ''1'',
             source_url = None, position = 1\<rparr>], next_chapter_id := 3\<rparr>)
   \<and> map source_url (chapters example_db_sourceless) = [None]
   \<and> length (chapters (snd (add_chapter_atomic example_float_of ''u'' ''n''
      \<lparr>d_slug = Some ''b'', d_source_url = None, d_position = None, d_chapter_number = Some ''1'',
       d_title = Key_missing, d_content = Key_missing, d_original_title = None,
       d_translated_title = None\<rparr>
      example_db_sourceless))) = Suc (length (chapters example_db_sourceless))"
  (is "?run = (Inr ?r, ?s') \<and> ?src \<and> ?len")
proof -
  let ?cd = "\<lparr>d_slug = Some ''b'', d_source_url = None, d_position = None, d_chapter_number = Some ''1'',
       d_title = Key_missing, d_content = Key_missing, d_original_title = None,
       d_translated_title = None\<rparr>"
  have run: "?run = (Inr ?r, ?s')" by code_simp
  have src: ?src by code_simp
  have h: "d_source_url ?cd = None \<or> d_source_url ?cd = Some []" by simp
  from sourceless_insert_never_skipped [OF h, of example_float_of "''u''" "''n''" example_db_sourceless,
      rule_format, OF run]
  have "length (chapters ?s') = Suc (length (chapters example_db_sourceless))" by blast
  with run have len: ?len by simp
  from run src len show ?thesis by blast
qed

text \<open>
  C10 as stated fails: a call without a source URL inserts nothing when the slug is already
  used by a chapter of the novel (the unique index rejects the row and the transaction is
  rolled back), or when the novel does not exist.
\<close>

theorem sourceless_insert_counterexample:
  "d_source_url \<lparr>d_slug = Some ''a'', d_source_url = None, d_position = None,
                 d_chapter_number = Some ''1'',
                 d_title = Key_missing, d_content = Key_missing, d_original_title = None,
                 d_translated_title = None\<rparr> = None
   \<and> query_novel example_db_sourceless ''u'' ''n''
       = Some \<lparr>n_id = 1, n_user_id = ''u'', n_slug = ''n'', n_sort_order_override = None\<rparr>
   \<and> fst (add_chapter_atomic example_float_of ''u'' ''n''
        \<lparr>d_slug = Some ''a'', d_source_url = None, d_position = None, d_chapter_number = Some ''1'',
         d_title = Key_missing, d_content = Key_missing, d_original_title = None,
         d_translated_title = None\<rparr>
        example_db_sourceless)
      = Inl IntegrityError
   \<and> chapters (snd (add_chapter_atomic example_float_of ''u'' ''n''
        \<lparr>d_slug = Some ''a'', d_source_url = None, d_position = None, d_chapter_number = Some ''1'',
         d_title = Key_missing, d_content = Key_missing, d_original_title = None,
         d_translated_title = None\<rparr>
        example_db_sourceless))
      = chapters example_db_sourceless
   \<and> add_chapter_atomic example_float_of ''u'' ''other''
        \<lparr>d_slug = Some ''b'', d_source_url = None, d_position = None, d_chapter_number = Some ''1'',
         d_title = Key_missing, d_content = Key_missing, d_original_title = None,
         d_translated_title = None\<rparr>
        example_db_sourceless
      = (Inl (ValueError ''other''), example_db_sourceless)"
  by code_simp

section \<open>Sort view\<close>

text \<open>
  C8, as the code has it. \<^verbatim>\<open>sort_chapters_by_number\<close> returns exactly the items it was
  given (the \<^verbatim>\<open>None\<close> entries apart), each unchanged and so with the position it had;
  the descending view of a descending view is that view again; and for every chapter list
  whose sort keys (the positions, 999999 where there is none) are pairwise distinct, the
  ascending view is the reverse of the descending view.
\<close>

theorem sort_view_pure:
  "mset (sort_chapters_by_number position_of chs order) = mset (List.map_filter (\<lambda>ch. ch) chs)
   \<and> sort_chapters_by_number position_of
        (map Some (sort_chapters_by_number position_of chs ''desc'')) ''desc''
       = sort_chapters_by_number position_of chs ''desc''
   \<and> (distinct (map (sort_key_of position_of) (List.map_filter (\<lambda>ch. ch) chs)) \<longrightarrow>
        sort_chapters_by_number position_of chs ''asc''
          = rev (sort_chapters_by_number position_of chs ''desc''))"
proof (intro conjI impI)
  show "mset (sort_chapters_by_number position_of chs order) = mset (List.map_filter (\<lambda>ch. ch) chs)"
    by (simp add: sort_chapters_by_number_def Let_def mset_py_sorted List.map_filter_simps)
  show "sort_chapters_by_number position_of
        (map Some (sort_chapters_by_number position_of chs ''desc'')) ''desc''
       = sort_chapters_by_number position_of chs ''desc''"
    by (simp add: sort_chapters_by_number_def Let_def map_filter_map_Some py_sorted_def
        sort_key_id_if_sorted)
  assume "distinct (map (sort_key_of position_of) (List.map_filter (\<lambda>ch. ch) chs))"
  then show "sort_chapters_by_number position_of chs ''asc''
          = rev (sort_chapters_by_number position_of chs ''desc'')"
    by (simp add: sort_chapters_by_number_def Let_def py_sorted_reverse)
qed

theorem sort_view_pure_witness:
  "distinct (map (sort_key_of (\<lambda>c. Some (position c)))
      (List.map_filter (\<lambda>ch. ch) (None # map Some (chapters example_db_400))))
   \<and> sort_chapters_by_number (\<lambda>c. Some (position c)) (None # map Some (chapters example_db_400)) ''asc''
       = rev (sort_chapters_by_number (\<lambda>c. Some (position c))
                (None # map Some (chapters example_db_400)) ''desc'')
   \<and> map c_id (sort_chapters_by_number (\<lambda>c. Some (position c))
        (None # map Some (chapters example_db_400)) ''asc'') = [1, 2, 4, 3]
   \<and> map position (sort_chapters_by_number (\<lambda>c. Some (position c))
        (None # map Some (chapters example_db_400)) ''desc'') = [3, 2, 1, 0]"
  (is "?d \<and> ?eq \<and> ?asc \<and> ?desc")
proof -
  have d: ?d by code_simp
  have asc: ?asc by code_simp
  have desc: ?desc by code_simp
  from sort_view_pure [of "\<lambda>c. Some (position c)" "None # map Some (chapters example_db_400)" "''asc''",
      THEN conjunct2, THEN conjunct2, rule_format, OF d]
  have eq: ?eq .
  from d eq asc desc show ?thesis by blast
qed

text \<open>
  C8 as stated fails for a list with tied positions: Python's stable sort keeps tied items in
  their given order in both directions, so the descending view is not the ascending one
  reversed.
\<close>

theorem sort_view_reverse_counterexample:
  "map c_id (sort_chapters_by_number (\<lambda>c. Some (position c)) (map Some example_tied) ''asc'') = [1, 2]
   \<and> map c_id (sort_chapters_by_number (\<lambda>c. Some (position c)) (map Some example_tied) ''desc'') = [1, 2]
   \<and> sort_chapters_by_number (\<lambda>c. Some (position c)) (map Some example_tied) ''asc''
     \<noteq> rev (sort_chapters_by_number (\<lambda>c. Some (position c)) (map Some example_tied) ''desc'')"
  by code_simp

section \<open>Deletion renormalizes\<close>

text \<open>
  C6. In a table whose primary keys are distinct, a \<^verbatim>\<open>delete_chapter\<close> that returns
  \<^verbatim>\<open>True\<close> has removed exactly one chapter row, the chapter of the novel at the given
  index of the displayed order; the novel's remaining chapters, taken in ascending position
  order, are the previous ones in their previous order without the deleted one, unchanged
  but for their positions, which are now \<open>0, ..., N - 2\<close> in that order; the chapters of other
  novels are untouched.
\<close>

theorem delete_chapter_renormalizes:
  assumes pk: "distinct (map c_id (chapters s))"
    and ok: "delete_chapter default_sort_order user_id novel_slug i s = (Inr True, s')"
  shows "\<exists>n ch. query_novel s user_id novel_slug = Some n
      \<and> ch \<in> set (chapters_by_position s (n_id n))
      \<and> py_index (sort_chapters_by_number (\<lambda>c. Some (position c))
                    (map Some (chapters_by_position s (n_id n)))
                    (case n_sort_order_override n of Some ov \<Rightarrow> ov | None \<Rightarrow> default_sort_order)) i
           = Inr ch
      \<and> chapters_by_position s' (n_id n) = renumbered (remove1 ch (chapters_by_position s (n_id n)))
      \<and> map (\<lambda>c. c\<lparr>position := 0\<rparr>) (chapters_by_position s' (n_id n))
           = map (\<lambda>c. c\<lparr>position := 0\<rparr>) (remove1 ch (chapters_by_position s (n_id n)))
      \<and> map position (chapters_by_position s' (n_id n))
           = map int [0 ..< length (novel_chapters s (n_id n)) - 1]
      \<and> Suc (length (novel_chapters s' (n_id n))) = length (novel_chapters s (n_id n))
      \<and> Suc (length (chapters s')) = length (chapters s)
      \<and> (\<forall>nid'. nid' \<noteq> n_id n \<longrightarrow> novel_chapters s' nid' = novel_chapters s nid')"
proof -
  from delete_chapter_cases [OF pk, of default_sort_order user_id novel_slug i] ok
  obtain n ch where nov: "query_novel s user_id novel_slug = Some n"
    and idx: "py_index (sort_chapters_by_number (\<lambda>c. Some (position c))
                    (map Some (chapters_by_position s (n_id n)))
                    (case n_sort_order_override n of Some ov \<Rightarrow> ov | None \<Rightarrow> default_sort_order)) i
           = Inr ch"
    and mem: "ch \<in> set (chapters_by_position s (n_id n))"
    and s': "s' = after_delete s (n_id n) ch"
    by auto
  let ?xs = "chapters_by_position s (n_id n)"
  have ch: "ch \<in> set (chapters s)" "c_novel_id ch = n_id n"
    using mem by (simp_all add: chapters_by_position_def novel_chapters_def)
  have sorted': "chapters_by_position s' (n_id n) = renumbered (remove1 ch ?xs)"
    unfolding s' using pk by (rule after_delete_same_novel)
  have len_rem: "length (remove1 ch ?xs) = length (novel_chapters s (n_id n)) - 1"
    using mem by (simp add: length_remove1 length_chapters_by_position)
  have pos: "map position (chapters_by_position s' (n_id n))
           = map int [0 ..< length (novel_chapters s (n_id n)) - 1]"
    by (simp only: sorted' positions_renumbered len_rem)
  have "length (chapters_by_position s' (n_id n)) = length (novel_chapters s (n_id n)) - 1"
    by (simp only: sorted' length_renumbered len_rem)
  moreover have "length (novel_chapters s (n_id n)) > 0"
    using mem by (auto simp: chapters_by_position_def)
  ultimately have cnt: "Suc (length (novel_chapters s' (n_id n))) = length (novel_chapters s (n_id n))"
    by (simp add: length_chapters_by_position)
  have "length (chapters s') = length (map c_id (chapters s'))" by simp
  also have "\<dots> = length (remove1 ch (chapters s))"
    unfolding s' by (simp only: after_delete_ids length_map)
  finally have tot: "Suc (length (chapters s')) = length (chapters s)"
    using ch(1) by (simp add: length_remove1) (metis Suc_pred length_pos_if_in_set)
  have oth: "\<forall>nid'. nid' \<noteq> n_id n \<longrightarrow> novel_chapters s' nid' = novel_chapters s nid'"
    unfolding s' using after_delete_other_novel [OF pk ch(2)] by blast
  have fields: "map (\<lambda>c. c\<lparr>position := 0\<rparr>) (chapters_by_position s' (n_id n))
           = map (\<lambda>c. c\<lparr>position := 0\<rparr>) (remove1 ch ?xs)"
    by (simp only: sorted' renumbered_fields)
  from nov mem idx sorted' fields pos cnt tot oth show ?thesis by blast
qed

theorem delete_chapter_renormalizes_witness:
  "map position (chapters_by_position example_db_400 1) = [0, 1, 2, 3]
   \<and> map c_id (chapters_by_position example_db_400 1) = [1, 2, 4, 3]
   \<and> delete_chapter ''asc'' ''u'' ''n'' 1 example_db_400
      = (Inr True,
         \<lparr>novels = [\<lparr>n_id = 1, n_user_id = ''u'', n_slug = ''n'', n_sort_order_override = None\<rparr>],
          chapters =
            [\<lparr>c_id = 1, c_novel_id = 1, c_slug = ''a'', chapter_number = Some ''1'',
               source_url = Some ''https://novelpia.com/viewer/100'', position = 0\<rparr>,
             \<lparr>c_id = 3, c_novel_id = 1, c_slug = ''c'', chapter_number = Some ''3'',
               source_url = Some ''https://novelpia.com/viewer/500'', position = 2\<rparr>,
             \<lparr>c_id = 4, c_novel_id = 1, c_slug = ''d'', chapter_number = Some ''2.5'',
               source_url = Some ''https://novelpia.com/viewer/400'', position = 1\<rparr>],
          next_chapter_id = 5, row_locks = []\<rparr>)
   \<and> map c_id (chapters_by_position (snd (delete_chapter ''asc'' ''u'' ''n'' 1 example_db_400)) 1)
       = [1, 4, 3]
   \<and> map position (chapters_by_position (snd (delete_chapter ''asc'' ''u'' ''n'' 1 example_db_400)) 1)
       = [0, 1, 2]"
  (is "?p0 \<and> ?i0 \<and> ?run = (Inr True, ?s') \<and> ?i1 \<and> ?p1")
proof -
  have p0: ?p0 by code_simp
  have i0: ?i0 by code_simp
  have run: "?run = (Inr True, ?s')" by code_simp
  have i1: ?i1 by code_simp
  have pk: "distinct (map c_id (chapters example_db_400))" by code_simp
  have nov: "query_novel example_db_400 ''u'' ''n''
      = Some \<lparr>n_id = 1, n_user_id = ''u'', n_slug = ''n'', n_sort_order_override = None\<rparr>"
    by code_simp
  have len: "length (novel_chapters example_db_400 1) = 4" by code_simp
  from delete_chapter_renormalizes [OF pk run] nov
  have "map position (chapters_by_position ?s' 1)
           = map int [0 ..< length (novel_chapters example_db_400 1) - 1]"
    by auto
  moreover have "map int [0 ..< length (novel_chapters example_db_400 1) - 1] = [0, 1, 2]"
    unfolding len by code_simp
  ultimately have "map position (chapters_by_position ?s' 1) = [0, 1, 2]"
    by (rule trans)
  with run have p1: ?p1 by simp
  from p0 i0 run i1 p1 show ?thesis by blast
qed

section \<open>Dense positions\<close>

text \<open>
  C1, as the code has it. Start from a database with distinct primary keys in which every
  novel's \<open>N\<close> chapters hold exactly the positions \<open>0, ..., N - 1\<close>, and run any finite
  sequence of \<^verbatim>\<open>add_chapter_atomic\<close> and \<^verbatim>\<open>delete_chapter\<close> calls in which every insert
  either supplies no explicit position or supplies the novel's current number of chapters.
  Then after each call of the sequence, whatever it returned or raised, every novel's chapters
  again hold exactly the positions \<open>0, ..., N - 1\<close>, each once.
\<close>

theorem positions_stay_dense:
  assumes "primary_key_ok s" and "\<forall>nid. dense_positions s nid"
    and "admissible float_of ops s"
  shows "\<forall>k \<le> length ops. \<forall>nid.
           distinct (map position (novel_chapters (run_operations float_of (take k ops) s) nid))
         \<and> set (map position (novel_chapters (run_operations float_of (take k ops) s) nid))
             = {0 ..< int (length (novel_chapters (run_operations float_of (take k ops) s) nid))}"
  using run_preserves [OF assms] by (simp add: dense_positions_def)

theorem positions_stay_dense_witness:
  "primary_key_ok example_db_empty
   \<and> (\<forall>nid. dense_positions example_db_empty nid)
   \<and> admissible example_float_of example_operations example_db_empty
   \<and> map (\<lambda>k. map position (chapters_by_position
              (run_operations example_float_of (take k example_operations) example_db_empty) 1))
        [0, 1, 2, 3, 4]
       = [[], [0], [0, 1], [0, 1, 2], [0, 1]]
   \<and> distinct (map position (novel_chapters
         (run_operations example_float_of (take 4 example_operations) example_db_empty) 1))
   \<and> set (map position (novel_chapters
         (run_operations example_float_of (take 4 example_operations) example_db_empty) 1))
       = {0 ..< int (length (novel_chapters
            (run_operations example_float_of (take 4 example_operations) example_db_empty) 1))}"
  (is "?pk \<and> ?dense \<and> ?adm \<and> ?steps \<and> ?d \<and> ?s")
proof -
  have pk: ?pk by (simp add: primary_key_ok_def example_db_empty_def)
  have dense: ?dense by (simp add: dense_positions_def novel_chapters_def example_db_empty_def)
  have adm: ?adm by code_simp
  have steps: ?steps by code_simp
  have len: "4 \<le> length example_operations" by (simp add: example_operations_def)
  from positions_stay_dense [OF pk dense adm, rule_format, OF len, of 1]
  have "?d \<and> ?s" .
  with pk dense adm steps show ?thesis by blast
qed

text \<open>
  C1 as stated fails for inserts with an explicit position, which is stored as given and
  shifts nothing: position 5 into a novel without chapters leaves the single chapter at
  position 5, and position 0 into a novel that holds positions 0, 1, 2 leaves two chapters at
  position 0.
\<close>

theorem explicit_position_counterexample:
  "primary_key_ok example_db_empty
   \<and> (\<forall>nid. dense_positions example_db_empty nid)
   \<and> add_chapter_atomic example_float_of ''u'' ''n''
        \<lparr>d_slug = Some ''a'', d_source_url = Some ''/viewer/300'', d_position = Some 5,
         d_chapter_number = Some ''2'',
       d_title = Key_missing, d_content = Key_missing, d_original_title = None,
       d_translated_title = None\<rparr> example_db_empty
      = (Inr \<lparr>success = True, message = ''Chapter imported successfully'', already_exists = None,
              r_novel_id = ''n'', chapter_index = 5, chapter_id = 1\<rparr>,
         example_db_empty\<lparr>chapters :=
           [\<lparr>c_id = 1, c_novel_id = 1, c_slug = ''a'', chapter_number = Some ''2'',
              source_url = Some ''/viewer/300'', position = 5\<rparr>], next_chapter_id := 2\<rparr>)
   \<and> map position (novel_chapters
        (run_operations example_float_of
           [Insert ''u'' ''n'' \<lparr>d_slug = Some ''a'', d_source_url = Some ''/viewer/300'',
                                d_position = Some 5, d_chapter_number = Some ''2'',
       d_title = Key_missing, d_content = Key_missing, d_original_title = None,
       d_translated_title = None\<rparr>]
           example_db_empty) 1) = [5]
   \<and> \<not> dense_positions
        (run_operations example_float_of
           [Insert ''u'' ''n'' \<lparr>d_slug = Some ''a'', d_source_url = Some ''/viewer/300'',
                                d_position = Some 5, d_chapter_number = Some ''2'',
       d_title = Key_missing, d_content = Key_missing, d_original_title = None,
       d_translated_title = None\<rparr>]
           example_db_empty) 1
   \<and> map position (novel_chapters
        (run_operations example_float_of
           [Insert ''u'' ''n'' \<lparr>d_slug = Some ''z'', d_source_url = Some ''/viewer/200'',
                                d_position = Some 0, d_chapter_number = Some ''1.5'',
       d_title = Key_missing, d_content = Key_missing, d_original_title = None,
       d_translated_title = None\<rparr>]
           example_db) 1) = [0, 1, 2, 0]"
  (is "?pk \<and> ?dense \<and> ?run \<and> ?pos \<and> ?nd \<and> ?dup")
proof -
  have pk: ?pk by (simp add: primary_key_ok_def example_db_empty_def)
  have dense: ?dense by (simp add: dense_positions_def novel_chapters_def example_db_empty_def)
  have run: ?run by code_simp
  have pos: ?pos by code_simp
  have nd: ?nd unfolding dense_positions_def pos by code_simp
  have dup: ?dup by code_simp
  from pk dense run pos nd dup show ?thesis by blast
qed

section \<open>Missing parent\<close>

text \<open>
  C9. When no novel row has the given owner and slug, \<^verbatim>\<open>add_chapter_atomic\<close> fails with
  the not-found error; the locking query found no row, so the transaction holds no lock at
  the point of the raise, and after the call the database (novels, chapters, primary-key
  sequence, row locks) is what it was.
\<close>

theorem add_chapter_atomic_not_found:
  assumes "query_novel s user_id novel_slug = None"
  shows "add_chapter_atomic float_of user_id novel_slug cd s = (Inl (ValueError novel_slug), s)
       \<and> row_locks (snd (add_chapter_body float_of user_id novel_slug cd s)) = row_locks s
       \<and> chapters (snd (add_chapter_atomic float_of user_id novel_slug cd s)) = chapters s"
  using assms
  by (simp add: add_chapter_atomic_def db_session_scope_def add_chapter_body_def
      query_novel_for_update_def)

theorem add_chapter_atomic_not_found_witness:
  "query_novel \<lparr>novels = [], chapters = [], next_chapter_id = 0, row_locks = []\<rparr> ''u1'' ''missing'' = None
   \<and> add_chapter_atomic (\<lambda>_. None) ''u1'' ''missing''
        \<lparr>d_slug = Some ''c1'', d_source_url = None, d_position = None, d_chapter_number = None,
       d_title = Key_missing, d_content = Key_missing, d_original_title = None,
       d_translated_title = None\<rparr>
        \<lparr>novels = [], chapters = [], next_chapter_id = 0, row_locks = []\<rparr>
      = (Inl (ValueError ''missing''), \<lparr>novels = [], chapters = [], next_chapter_id = 0, row_locks = []\<rparr>)"
proof -
  have h: "query_novel \<lparr>novels = [], chapters = [], next_chapter_id = 0, row_locks = []\<rparr> ''u1'' ''missing'' = None"
    by (simp add: query_novel_def)
  from add_chapter_atomic_not_found [OF h] h show ?thesis by simp
qed

end
